theory Spec2Isabelle
  imports Complex_Main "HOL-Library.Sublist" "HOL-Library.Multiset"
begin

section \<open>Values shared by the whole pipeline\<close>

text \<open>
  The exceptions that \<^verbatim>\<open>vbdiar/scoring/diarization.py\<close> raises itself or lets
  pass. \<open>AttributeError\<close> carries the name of the attribute that was not found, and
  \<open>DiarizationException\<close> its message; this class is declared outside the file and is
  taken to be an exception class of its own, not a kind of \<open>IOError\<close>. Collaborators
  outside the file (scikit-learn, pyclustering, the PLDA model, the normalizer) return
  \<open>error + 'a\<close>, so they may fail with any of these values.
\<close>

datatype error =
    IOError
  | IndexError
  | ValueError
  | KeyError
  | AttributeError string
  | DiarizationException string

text \<open>What \<^verbatim>\<open>loginfo\<close> and \<^verbatim>\<open>logwarning\<close> receive, in call order.\<close>

datatype log_entry = Info string | Warning string

type_synonym matrix = "real list list"

text \<open>
  Modelled from the spec: the classes \<^verbatim>\<open>Ivec\<close> and \<^verbatim>\<open>IvecSet\<close> are declared outside the
  file. An embedding has its vector and the segment's start and end in milliseconds; a
  set has a name, an optional declared speaker count and its embeddings in order;
  \<^verbatim>\<open>size()\<close> counts the embeddings and \<^verbatim>\<open>get_all()\<close> is the dense array of the
  vectors, order preserved.
\<close>

record ivec =
  data :: "real list"
  window_start :: real
  window_end :: real

record ivecset =
  name :: string
  num_speakers :: "int option"
  ivecs :: "ivec list"

definition size_ivecset :: "ivecset \<Rightarrow> nat" where
  "size_ivecset s = length (ivecs s)"

definition get_all :: "ivecset \<Rightarrow> matrix" where
  "get_all s = map data (ivecs s)"


section \<open>Strings and paths of the standard library\<close>

text \<open>The whitespace of \<^verbatim>\<open>str.rstrip()\<close> and \<^verbatim>\<open>str.split()\<close> without arguments.\<close>

definition is_space :: "char \<Rightarrow> bool" where
  "is_space c \<longleftrightarrow> c \<in> {CHR '' '', CHR 0x09, CHR 0x0A, CHR 0x0B, CHR 0x0C, CHR 0x0D}"

definition rstrip :: "string \<Rightarrow> string" where
  "rstrip s = rev (dropWhile is_space (rev s))"

text \<open>\<^verbatim>\<open>s.split()\<close>: the maximal runs of non-whitespace; \<open>cur\<close> is the run being read.\<close>

fun split_acc :: "string \<Rightarrow> string \<Rightarrow> string list" where
  "split_acc cur [] = (if cur = [] then [] else [cur])"
| "split_acc cur (c # cs) =
     (if is_space c then (if cur = [] then split_acc [] cs else cur # split_acc [] cs)
      else split_acc (cur @ [c]) cs)"

definition split_ws :: "string \<Rightarrow> string list" where
  "split_ws s = split_acc [] s"

text \<open>\<^verbatim>\<open>s.split(sep)\<close> for a one-character separator: never empty, \<^verbatim>\<open>''.split('/') == ['']\<close>.\<close>

fun split_on :: "char \<Rightarrow> string \<Rightarrow> string list" where
  "split_on sep [] = [[]]"
| "split_on sep (c # cs) =
     (if c = sep then [] # split_on sep cs
      else (case split_on sep cs of [] \<Rightarrow> [[c]] | w # ws \<Rightarrow> (c # w) # ws))"

fun join_on :: "char \<Rightarrow> string list \<Rightarrow> string" where
  "join_on sep [] = []"
| "join_on sep [w] = w"
| "join_on sep (w # v # ws) = w @ sep # join_on sep (v # ws)"

text \<open>\<^verbatim>\<open>int(tok)\<close> on a token without whitespace: an optional sign, then decimal digits.\<close>

definition is_digit :: "char \<Rightarrow> bool" where
  "is_digit c \<longleftrightarrow> (48::nat) \<le> of_char c \<and> of_char c \<le> (57::nat)"

definition digits_value :: "string \<Rightarrow> int" where
  "digits_value ds = foldl (\<lambda>acc c. 10 * acc + (int (of_char c) - 48)) 0 ds"

definition py_digits :: "string \<Rightarrow> error + int" where
  "py_digits ds = (if ds \<noteq> [] \<and> list_all is_digit ds then Inr (digits_value ds) else Inl ValueError)"

definition py_int :: "string \<Rightarrow> error + int" where
  "py_int tok =
     (case tok of
        [] \<Rightarrow> Inl ValueError
      | c # ds \<Rightarrow>
          if c = CHR ''-'' then (case py_digits ds of Inl e \<Rightarrow> Inl e | Inr n \<Rightarrow> Inr (- n))
          else if c = CHR ''+'' then py_digits ds
          else py_digits (c # ds))"

text \<open>\<^verbatim>\<open>os.path.join(a, b)\<close> of \<^verbatim>\<open>posixpath\<close>, for two arguments.\<close>

definition path_join :: "string \<Rightarrow> string \<Rightarrow> string" where
  "path_join a b =
     (if prefix ''/'' b then b
      else if a = [] \<or> last a = CHR ''/'' then a @ b
      else a @ ''/'' @ b)"

text \<open>
  \<^verbatim>\<open>os.path.normpath\<close> of \<^verbatim>\<open>posixpath\<close>. \<open>normpath_step\<close> is the body of its loop over
  the components, \<open>slashes\<close> the value of \<^verbatim>\<open>initial_slashes\<close> (0, 1 or 2).
\<close>

definition initial_slashes :: "string \<Rightarrow> nat" where
  "initial_slashes path =
     (if prefix ''/'' path
      then (if prefix ''//'' path \<and> \<not> prefix ''///'' path then 2 else 1)
      else 0)"

definition normpath_step :: "nat \<Rightarrow> string list \<Rightarrow> string \<Rightarrow> string list" where
  "normpath_step slashes new_comps component =
     (if component = [] \<or> component = ''.'' then new_comps
      else if component \<noteq> ''..'' \<or> (slashes = 0 \<and> new_comps = [])
              \<or> (new_comps \<noteq> [] \<and> last new_comps = ''..'')
      then new_comps @ [component]
      else if new_comps \<noteq> [] then butlast new_comps
      else new_comps)"

definition normpath :: "string \<Rightarrow> string" where
  "normpath path =
     (if path = [] then ''.''
      else
        let slashes = initial_slashes path;
            comps = foldl (normpath_step slashes) [] (split_on CHR ''/'' path);
            joined = join_on CHR ''/'' comps;
            res = (if slashes > 0 then replicate slashes CHR ''/'' @ joined else joined)
        in if res = [] then ''.'' else res)"


section \<open>Loading the sets: \<^verbatim>\<open>Diarization.load_ivecs\<close>\<close>

text \<open>
  Storage is what \<^verbatim>\<open>open\<close> and \<^verbatim>\<open>pickle.load\<close> see: the lines of each text file (each
  with its line end, as iteration over the file yields them) and the set unpickled from
  each pickle file. A path outside the domain makes \<^verbatim>\<open>open\<close> raise \<open>IOError\<close>.
\<close>

record storage =
  text_files :: "string \<rightharpoonup> string list"
  pickle_files :: "string \<rightharpoonup> ivecset"

text \<open>
  One pass of the loop body, lines 64 to 84: the log entries it makes and either the
  exception that leaves the loop or what the pass yields (nothing after a caught
  \<open>IOError\<close>). The argument of the first \<^verbatim>\<open>loginfo\<close> is evaluated before the
  \<^verbatim>\<open>try\<close>: with no column, \<^verbatim>\<open>split()[0]\<close> raises \<open>IndexError\<close> there.
\<close>

definition load_line ::
  "storage \<Rightarrow> string \<Rightarrow> string \<Rightarrow> string \<Rightarrow> log_entry list \<times> (error + ivecset option)" where
  "load_line st ivecs_dir input_list line0 =
     (case split_ws (rstrip line0) of
        [] \<Rightarrow> ([], Inl IndexError)
      | first # _ \<Rightarrow>
          let loading = Info (''[Diarization.load_ivecs] Loading pickle file '' @ first @ '' ...'');
              missing = Warning (''[Diarization.load_ivecs] No pickle file found for '' @ first @ ''.'');
              line = rstrip line0;
              cols = split_ws line
          in if length cols = 1 then
               (case pickle_files st (path_join ivecs_dir (line @ ''.pkl'')) of
                  None \<Rightarrow> ([loading, missing], Inr None)
                | Some s \<Rightarrow> ([loading], Inr (Some s)))
             else if length cols = 2 then
               (let file_name = cols ! 0 in
                case py_int (cols ! 1) of
                  Inl e \<Rightarrow> ([loading], Inl e)
                | Inr num_spks \<Rightarrow>
                    (case pickle_files st (path_join ivecs_dir (file_name @ ''.pkl'')) of
                       None \<Rightarrow> ([loading, missing], Inr None)
                     | Some s \<Rightarrow> ([loading], Inr (Some (s\<lparr>num_speakers := Some num_spks\<rparr>)))))
             else ([loading], Inl (DiarizationException
                    (''[Diarization.load_ivecs] Unexpected number of columns in input list ''
                       @ input_list @ ''.''))))"

text \<open>
  The loop over the lines, consumed by \<^verbatim>\<open>list(self.load_ivecs())\<close>: the first
  exception ends it and discards the sets yielded so far.
\<close>

fun load_lines ::
  "storage \<Rightarrow> string \<Rightarrow> string \<Rightarrow> string list \<Rightarrow> log_entry list \<times> (error + ivecset list)" where
  "load_lines st ivecs_dir input_list [] = ([], Inr [])"
| "load_lines st ivecs_dir input_list (l # ls) =
     (case load_line st ivecs_dir input_list l of
        (lg, Inl e) \<Rightarrow> (lg, Inl e)
      | (lg, Inr y) \<Rightarrow>
          (case load_lines st ivecs_dir input_list ls of
             (lg', Inl e) \<Rightarrow> (lg @ lg', Inl e)
           | (lg', Inr sets) \<Rightarrow>
               (lg @ lg', Inr (case y of None \<Rightarrow> sets | Some s \<Rightarrow> s # sets))))"

definition load_ivecs ::
  "storage \<Rightarrow> string \<Rightarrow> string \<Rightarrow> log_entry list \<times> (error + ivecset list)" where
  "load_ivecs st ivecs_dir input_list =
     (case text_files st input_list of
        None \<Rightarrow> ([], Inl IOError)
      | Some ls \<Rightarrow> load_lines st ivecs_dir input_list ls)"

text \<open>
  What a line of the index stands for, in the words of the index format: a line
  \<^verbatim>\<open><name>\<close> or \<^verbatim>\<open><name> <count>\<close> with an integer count is well formed, and it denotes
  the persisted set of that name, with the count declared on it in the second form.
\<close>

definition line_ok :: "string \<Rightarrow> bool" where
  "line_ok l \<longleftrightarrow>
     (case split_ws (rstrip l) of
        [n] \<Rightarrow> True
      | [n, c] \<Rightarrow> (case py_int c of Inl e \<Rightarrow> False | Inr k \<Rightarrow> True)
      | _ \<Rightarrow> False)"

definition pickle_path :: "string \<Rightarrow> string \<Rightarrow> string" where
  "pickle_path ivecs_dir l =
     (case split_ws (rstrip l) of
        [n] \<Rightarrow> path_join ivecs_dir (rstrip l @ ''.pkl'')
      | n # _ \<Rightarrow> path_join ivecs_dir (n @ ''.pkl'')
      | [] \<Rightarrow> [])"



section \<open>Scoring: \<^verbatim>\<open>Diarization.score_ivec\<close>\<close>

text \<open>
  The collaborators the method calls. Each stands for the outcome of the call in the
  run considered, an exception or a value:
  \<^item> \<open>sklearn_kmeans k X\<close> is \<^verbatim>\<open>sklearnKMeans(n_clusters=k).fit(X).cluster_centers_\<close>;
  \<^item> \<open>pldakmeans c k p X\<close> is \<^verbatim>\<open>PLDAKMeans(c, k, p).fit(X)\<close>;
  \<^item> \<open>xmeans_clusters X kmax\<close> is \<^verbatim>\<open>xm.get_clusters()\<close> after
    \<^verbatim>\<open>xm = xmeans(X, kmax=kmax); xm.process()\<close>: pyclustering's list of clusters, each
    cluster the list of the indices of its points in \<open>X\<close>;
  \<^item> a PLDA model has \<^verbatim>\<open>score\<close>, a normalizer has \<^verbatim>\<open>s_norm\<close>.
\<close>

record plda_model =
  score :: "matrix \<Rightarrow> matrix \<Rightarrow> error + matrix"

record normalization =
  s_norm :: "matrix \<Rightarrow> matrix \<Rightarrow> error + matrix"

record clustering =
  sklearn_kmeans :: "int \<Rightarrow> matrix \<Rightarrow> error + matrix"
  pldakmeans :: "matrix \<Rightarrow> int \<Rightarrow> plda_model option \<Rightarrow> matrix \<Rightarrow> error + matrix"
  xmeans_clusters :: "matrix \<Rightarrow> int \<Rightarrow> error + nat list list"

text \<open>The attributes that \<^verbatim>\<open>__init__\<close> sets and the methods below read.\<close>

record diarization =
  input_list :: string
  self_ivecs :: "ivecset list"
  self_norm :: "normalization option"
  self_plda :: "plda_model option"

text \<open>
  \<^verbatim>\<open>sklearn.metrics.pairwise.cosine_similarity(X, Y)\<close>: both arrays must be
  two-dimensional, non-empty and of one width, else \<open>ValueError\<close>; the rows are scaled
  to length one (a zero row stays zero) and entry \<open>(i, j)\<close> is the product of row \<open>i\<close>
  of \<open>X\<close> and row \<open>j\<close> of \<open>Y\<close>. A list of rows of different lengths stands for what
  \<^verbatim>\<open>np.array\<close> makes of ragged lists, which is not a two-dimensional array.
\<close>

definition dot :: "real list \<Rightarrow> real list \<Rightarrow> real" where
  "dot x y = sum_list (map (\<lambda>(a, b). a * b) (zip x y))"

definition l2_normalize :: "real list \<Rightarrow> real list" where
  "l2_normalize x = (let n = sqrt (dot x x) in if n = 0 then x else map (\<lambda>a. a / n) x)"

definition cosine_similarity :: "matrix \<Rightarrow> matrix \<Rightarrow> error + matrix" where
  "cosine_similarity X Y =
     (case X of
        [] \<Rightarrow> Inl ValueError
      | x0 # _ \<Rightarrow>
          if Y = [] \<or> length x0 = 0 \<or> \<not> list_all (\<lambda>r. length r = length x0) (X @ Y)
          then Inl ValueError
          else Inr (map (\<lambda>x. map (\<lambda>y. dot (l2_normalize x) (l2_normalize y)) Y) X))"

text \<open>\<^verbatim>\<open>M.T\<close> of a two-dimensional array given by its rows.\<close>

definition transpose_m :: "matrix \<Rightarrow> matrix" where
  "transpose_m M =
     (case M of [] \<Rightarrow> [] | r # _ \<Rightarrow> map (\<lambda>j. map (\<lambda>row. row ! j) M) [0..<length r])"

text \<open>Lines 99 to 109: the centroids of one set.\<close>

definition estimate_centroids ::
  "clustering \<Rightarrow> plda_model option \<Rightarrow> ivecset \<Rightarrow> int \<Rightarrow> error + matrix" where
  "estimate_centroids cl plda s max_num_speakers =
     (case num_speakers s of
        Some k \<Rightarrow>
          (case sklearn_kmeans cl k (get_all s) of
             Inl e \<Rightarrow> Inl e
           | Inr cluster_centers \<Rightarrow>
               (case plda of
                  None \<Rightarrow> Inr cluster_centers
                | Some p \<Rightarrow> pldakmeans cl cluster_centers k (Some p) (get_all s)))
      | None \<Rightarrow>
          (case xmeans_clusters cl (get_all s) max_num_speakers of
             Inl e \<Rightarrow> Inl e
           | Inr clusters \<Rightarrow> Inr (map (map real) clusters)))"

text \<open>Lines 110 to 116: the matrix stored for one set.\<close>

definition compute_scores ::
  "normalization option \<Rightarrow> plda_model option \<Rightarrow> matrix \<Rightarrow> matrix \<Rightarrow> error + matrix" where
  "compute_scores nrm plda X centroids =
     (case nrm of
        None \<Rightarrow>
          (case plda of
             None \<Rightarrow>
               (case cosine_similarity X centroids of
                  Inl e \<Rightarrow> Inl e
                | Inr M \<Rightarrow> Inr (transpose_m M))
           | Some p \<Rightarrow> score p X centroids)
      | Some n \<Rightarrow> s_norm n X centroids)"

text \<open>
  The body of the loop of \<^verbatim>\<open>score_ivec\<close> on one set, from the dictionary built so far:
  the log entries, and the exception or the new dictionary.
\<close>

definition score_set ::
  "clustering \<Rightarrow> diarization \<Rightarrow> int \<Rightarrow> (string \<rightharpoonup> matrix) \<Rightarrow> ivecset
     \<Rightarrow> log_entry list \<times> (error + (string \<rightharpoonup> matrix))" where
  "score_set cl d max_num_speakers scores_dict s =
     (let nm = normpath (name s);
          X = get_all s;
          scoring = Info (''Scoring '' @ nm @ '' ...'')
      in if size_ivecset s > 0 then
           (case estimate_centroids cl (self_plda d) s max_num_speakers of
              Inl e \<Rightarrow> ([scoring], Inl e)
            | Inr centroids \<Rightarrow>
                (case compute_scores (self_norm d) (self_plda d) X centroids of
                   Inl e \<Rightarrow> ([scoring], Inl e)
                 | Inr M \<Rightarrow> ([scoring], Inr (scores_dict(nm \<mapsto> M)))))
         else ([scoring,
                Warning (''[Diarization.score] No i-vectors to score in '' @ name s @ ''.'')],
               Inr scores_dict))"

fun score_loop ::
  "clustering \<Rightarrow> diarization \<Rightarrow> int \<Rightarrow> (string \<rightharpoonup> matrix) \<Rightarrow> ivecset list
     \<Rightarrow> log_entry list \<times> (error + (string \<rightharpoonup> matrix))" where
  "score_loop cl d max_num_speakers scores_dict [] = ([], Inr scores_dict)"
| "score_loop cl d max_num_speakers scores_dict (s # ss) =
     (case score_set cl d max_num_speakers scores_dict s of
        (lg, Inl e) \<Rightarrow> (lg, Inl e)
      | (lg, Inr scores_dict') \<Rightarrow>
          (case score_loop cl d max_num_speakers scores_dict' ss of
             (lg', r) \<Rightarrow> (lg @ lg', r)))"

definition score_ivec ::
  "clustering \<Rightarrow> diarization \<Rightarrow> int \<Rightarrow> log_entry list \<times> (error + (string \<rightharpoonup> matrix))" where
  "score_ivec cl d max_num_speakers = score_loop cl d max_num_speakers Map.empty (self_ivecs d)"


section \<open>Writing the timelines: \<^verbatim>\<open>Diarization.dump_rttm\<close>\<close>

text \<open>
  \<^verbatim>\<open>re.sub(pat, '', s)\<close> for a pattern without special characters: every occurrence
  found from left to right, without overlap, is deleted.
\<close>

function re_sub_delete :: "string \<Rightarrow> string \<Rightarrow> string" where
  "re_sub_delete pat [] = []"
| "re_sub_delete pat (c # cs) =
     (if pat \<noteq> [] \<and> prefix pat (c # cs)
      then re_sub_delete pat (drop (length pat) (c # cs))
      else c # re_sub_delete pat cs)"
  by pat_completeness auto
termination
  by (relation "measure (\<lambda>(pat, s). length s)") auto

text \<open>
  \<^verbatim>\<open>re.sub('/.*', '', s)\<close>: from each slash on, the rest of the line is deleted (the
  dot matches no line feed). \<open>skipping\<close> holds inside a match.
\<close>

fun strip_slash_rest :: "bool \<Rightarrow> string \<Rightarrow> string" where
  "strip_slash_rest skipping [] = []"
| "strip_slash_rest skipping (c # cs) =
     (if skipping then (if c = CHR 0x0A then c # strip_slash_rest False cs
                        else strip_slash_rest True cs)
      else if c = CHR ''/'' then strip_slash_rest True cs
      else c # strip_slash_rest False cs)"

text \<open>
  \<^verbatim>\<open>np.argmax\<close> of a one-dimensional array: the first index of a greatest entry,
  \<open>ValueError\<close> on an empty array. \<open>argmax_from xs i best bv\<close> scans \<open>xs\<close>, whose head
  has index \<open>i\<close>, with \<open>bv\<close> at index \<open>best\<close> the greatest entry so far.
\<close>

fun argmax_from :: "real list \<Rightarrow> nat \<Rightarrow> nat \<Rightarrow> real \<Rightarrow> nat" where
  "argmax_from [] i best bv = best"
| "argmax_from (x # xs) i best bv =
     (if bv < x then argmax_from xs (Suc i) i x else argmax_from xs (Suc i) best bv)"

definition argmax :: "real list \<Rightarrow> error + nat" where
  "argmax xs = (case xs of [] \<Rightarrow> Inl ValueError | x # rest \<Rightarrow> Inr (argmax_from rest 1 0 x))"

text \<open>\<^verbatim>\<open>M.T[i]\<close>: column \<open>i\<close> of the array, \<open>IndexError\<close> beyond its width.\<close>

definition column :: "matrix \<Rightarrow> nat \<Rightarrow> error + real list" where
  "column M i = (if list_all (\<lambda>row. i < length row) M then Inr (map (\<lambda>row. row ! i) M)
                 else Inl IndexError)"

text \<open>
  What one written line carries: the recording id, start and duration in seconds and the
  speaker index. The text of the line is made from these four by \<^verbatim>\<open>str.format\<close>.
\<close>

record rttm_line =
  rec_id :: string
  start_s :: real
  duration_s :: real
  spkr_idx :: nat

record rttm_file =
  file_path :: string
  file_lines :: "rttm_line list"

text \<open>
  Lines 149 to 153, the loop over \<^verbatim>\<open>enumerate(ivecset.ivecs)\<close> from index \<open>i\<close> on.
  \<open>entry\<close> is the outcome of \<^verbatim>\<open>scores[name]\<close>, looked up at every pass.
\<close>

fun dump_segments :: "matrix option \<Rightarrow> string \<Rightarrow> nat \<Rightarrow> ivec list \<Rightarrow> error + rttm_line list" where
  "dump_segments entry reg_name i [] = Inr []"
| "dump_segments entry reg_name i (v # vs) =
     (case entry of
        None \<Rightarrow> Inl KeyError
      | Some M \<Rightarrow>
          (case column M i of
             Inl e \<Rightarrow> Inl e
           | Inr col \<Rightarrow>
               (case argmax col of
                  Inl e \<Rightarrow> Inl e
                | Inr idx \<Rightarrow>
                    (case dump_segments entry reg_name (Suc i) vs of
                       Inl e \<Rightarrow> Inl e
                     | Inr ls \<Rightarrow>
                         Inr (\<lparr>rec_id = reg_name,
                               start_s = window_start v / 1000,
                               duration_s = (window_end v - window_start v) / 1000,
                               spkr_idx = idx\<rparr> # ls)))))"

text \<open>
  The body of the loop of \<^verbatim>\<open>dump_rttm\<close> on one set: the set as the pass leaves it (the
  assignment to \<^verbatim>\<open>ivecset.name\<close> changes the object held in \<^verbatim>\<open>self.ivecs\<close>), the log
  entries, and the exception or the file written. Creating the directory and opening the
  file are taken to succeed; a file left incomplete by an exception is not returned.
\<close>

definition dump_set ::
  "(string \<rightharpoonup> matrix) \<Rightarrow> string \<Rightarrow> ivecset
     \<Rightarrow> ivecset \<times> log_entry list \<times> (error + rttm_file list)" where
  "dump_set scores out_dir s =
     (if size_ivecset s > 0 then
        (let nm = name s;
             s' = (if sublist ''beamformed'' (name s)
                   then s\<lparr>name := re_sub_delete ''beamformed/'' (name s)\<rparr> else s);
             reg_name = strip_slash_rest False (name s')
         in case dump_segments (scores nm) reg_name 0 (ivecs s') of
              Inl e \<Rightarrow> (s', [], Inl e)
            | Inr ls \<Rightarrow>
                (s', [], Inr [\<lparr>file_path = path_join out_dir (nm @ ''.rttm''), file_lines = ls\<rparr>]))
      else (s, [Warning (''[Diarization.dump_rttm] No i-vectors to dump in '' @ name s @ ''.'')],
            Inr []))"

fun dump_loop ::
  "(string \<rightharpoonup> matrix) \<Rightarrow> string \<Rightarrow> ivecset list
     \<Rightarrow> ivecset list \<times> log_entry list \<times> (error + rttm_file list)" where
  "dump_loop scores out_dir [] = ([], [], Inr [])"
| "dump_loop scores out_dir (s # ss) =
     (case dump_set scores out_dir s of
        (s', lg, Inl e) \<Rightarrow> (s' # ss, lg, Inl e)
      | (s', lg, Inr fs) \<Rightarrow>
          (case dump_loop scores out_dir ss of
             (ss', lg', Inl e) \<Rightarrow> (s' # ss', lg @ lg', Inl e)
           | (ss', lg', Inr fs') \<Rightarrow> (s' # ss', lg @ lg', Inr (fs @ fs'))))"

text \<open>
  \<^verbatim>\<open>dump_rttm\<close>: the pipeline object with its sets as the call leaves them, the log
  entries, and the exception or the files written.
\<close>

definition dump_rttm ::
  "diarization \<Rightarrow> (string \<rightharpoonup> matrix) \<Rightarrow> string
     \<Rightarrow> diarization \<times> log_entry list \<times> (error + rttm_file list)" where
  "dump_rttm d scores out_dir =
     (case dump_loop scores out_dir (self_ivecs d) of
        (sets', lg, r) \<Rightarrow> (d\<lparr>self_ivecs := sets'\<rparr>, lg, r))"


section \<open>Choosing the speaker count: \<^verbatim>\<open>Diarization.get_num_speakers\<close>\<close>

text \<open>
  The method reads \<^verbatim>\<open>self.s_norm\<close> in the first pass of its loop over
  \<^verbatim>\<open>range(min_speakers, max_speakers + 1)\<close>, after the two clustering calls, and
  \<^verbatim>\<open>self.model\<close> after the loop. The class has neither attribute: \<^verbatim>\<open>__init__\<close> sets
  \<^verbatim>\<open>input_list\<close>, \<^verbatim>\<open>ivecs_dir\<close>, \<^verbatim>\<open>ivecs\<close>, \<^verbatim>\<open>norm\<close> and \<^verbatim>\<open>plda\<close>, and no method
  has one of these names. So the first read raises \<open>AttributeError\<close>, and the model
  ends there.
\<close>

definition get_num_speakers ::
  "clustering \<Rightarrow> diarization \<Rightarrow> matrix \<Rightarrow> int \<Rightarrow> int \<Rightarrow> error + (int \<times> matrix)" where
  "get_num_speakers cl d X min_speakers max_speakers =
     (if min_speakers \<le> max_speakers then
        (case sklearn_kmeans cl min_speakers X of
           Inl e \<Rightarrow> Inl e
         | Inr cluster_centers \<Rightarrow>
             (case pldakmeans cl cluster_centers min_speakers (self_plda d) X of
                Inl e \<Rightarrow> Inl e
              | Inr centroids \<Rightarrow> Inl (AttributeError ''s_norm'')))
      else Inl (AttributeError ''model''))"


section \<open>Notions used to state the properties\<close>

text \<open>
  The component list of a normalized path: some leading \<^verbatim>\<open>..\<close>, none of them below a
  root, then components that are neither empty nor \<^verbatim>\<open>.\<close> nor \<^verbatim>\<open>..\<close>.
\<close>

definition proper_comp :: "string \<Rightarrow> bool" where
  "proper_comp c \<longleftrightarrow> c \<noteq> [] \<and> c \<noteq> ''.'' \<and> c \<noteq> ''..'' \<and> CHR ''/'' \<notin> set c"

definition normal_comps :: "nat \<Rightarrow> string list \<Rightarrow> bool" where
  "normal_comps slashes cs \<longleftrightarrow>
     (\<exists>m ps. cs = replicate m ''..'' @ ps \<and> (slashes > 0 \<longrightarrow> m = 0) \<and> list_all proper_comp ps)"

text \<open>
  \<open>idx\<close> is the 0-based argmax over the rows of column \<open>j\<close> of \<open>M\<close>: a row index whose
  entry in the column is greatest, and the first such.
\<close>

definition is_argmax_of_column :: "matrix \<Rightarrow> nat \<Rightarrow> nat \<Rightarrow> bool" where
  "is_argmax_of_column M j idx \<longleftrightarrow>
     idx < length M \<and> list_all (\<lambda>row. row ! j \<le> M ! idx ! j) M
     \<and> list_all (\<lambda>row. row ! j < M ! idx ! j) (take idx M)"

text \<open>
  What \<^verbatim>\<open>dump_rttm\<close> does to the name of a set: a non-empty set whose name contains
  \<^verbatim>\<open>beamformed\<close> loses every \<^verbatim>\<open>beamformed/\<close> of its name.
\<close>

definition renamed :: "ivecset \<Rightarrow> ivecset" where
  "renamed s =
     (if size_ivecset s > 0 \<and> sublist ''beamformed'' (name s)
      then s\<lparr>name := re_sub_delete ''beamformed/'' (name s)\<rparr> else s)"


text \<open>
  A timeline tuple as the output contract has it: start and duration are the segment's
  start and length in milliseconds divided by 1000, and the speaker index is the argmax
  of the segment's column. A written file is the timeline of a set when it has one such
  tuple per embedding, in order, read from the matrix stored under the set's name, each
  with the recording id that the (possibly rewritten) name gives.
\<close>

definition tuple_ok :: "matrix \<Rightarrow> ivec \<Rightarrow> nat \<Rightarrow> rttm_line \<Rightarrow> bool" where
  "tuple_ok M v j t \<longleftrightarrow>
     start_s t = window_start v / 1000
     \<and> duration_s t = (window_end v - window_start v) / 1000
     \<and> is_argmax_of_column M j (spkr_idx t)"

definition timeline_ok :: "(string \<rightharpoonup> matrix) \<Rightarrow> ivecset \<Rightarrow> rttm_file \<Rightarrow> bool" where
  "timeline_ok scores s f \<longleftrightarrow>
     (case scores (name s) of
        None \<Rightarrow> False
      | Some M \<Rightarrow>
          length (file_lines f) = length (ivecs s)
          \<and> list_all (\<lambda>t. rec_id t = strip_slash_rest False (name (renamed s))) (file_lines f)
          \<and> list_all (\<lambda>j. tuple_ok M (ivecs s ! j) j (file_lines f ! j)) [0..<length (ivecs s)])"


section \<open>A recording used in the examples\<close>

text \<open>
  Four embeddings of dimension three in two well separated pairs, with the outcomes of
  the clustering collaborators in one run on them: K-means with two clusters settles on
  the means of the pairs, x-means finds the pairs, and the PLDA refinement leaves the
  centres as they are.
\<close>

definition ex_vecs :: "ivec list" where
  "ex_vecs = [\<lparr>data = [12/13, 5/13, 0], window_start = 0, window_end = 1500\<rparr>,
              \<lparr>data = [12/13, - 5/13, 0], window_start = 1500, window_end = 2250\<rparr>,
              \<lparr>data = [0, 5/13, 12/13], window_start = 2250, window_end = 4000\<rparr>,
              \<lparr>data = [0, - 5/13, 12/13], window_start = 4000, window_end = 4500\<rparr>]"

definition ex_set :: "string \<Rightarrow> int option \<Rightarrow> ivecset" where
  "ex_set nm k = \<lparr>name = nm, num_speakers = k, ivecs = ex_vecs\<rparr>"

definition ex_empty :: ivecset where
  "ex_empty = \<lparr>name = ''silence'', num_speakers = None, ivecs = []\<rparr>"

definition ex_clustering :: clustering where
  "ex_clustering =
     \<lparr>sklearn_kmeans = (\<lambda>k X. Inr [[12/13, 0, 0], [0, 0, 12/13]]),
      pldakmeans = (\<lambda>c k p X. Inr c),
      xmeans_clusters = (\<lambda>X kmax. Inr [[0, 1], [2, 3]])\<rparr>"

definition ex_pipeline :: "ivecset list \<Rightarrow> diarization" where
  "ex_pipeline sets =
     \<lparr>input_list = ''list.txt'', self_ivecs = sets, self_norm = None, self_plda = None\<rparr>"

definition ex_matrix :: matrix where
  "ex_matrix = [[12/13, 12/13, 0, 0], [0, 0, 12/13, 12/13]]"

text \<open>Storage with the index \<^verbatim>\<open>list.txt\<close> of the given lines and one persisted set, \<^verbatim>\<open>rec2\<close>.\<close>

definition index_storage :: "string list \<Rightarrow> storage" where
  "index_storage ls =
     \<lparr>text_files = [''list.txt'' \<mapsto> ls],
      pickle_files = [''ivecs/rec2.pkl'' \<mapsto> ex_set ''rec2'' None]\<rparr>"


section \<open>Properties of loading\<close>

lemmas str_simps =
  rstrip_def split_ws_def is_space_def py_int_def py_digits_def is_digit_def digits_value_def
  path_join_def

lemma rstrip_idem: "rstrip (rstrip l) = rstrip l"
  unfolding rstrip_def by (metis dropWhile_idem rev_rev_ident)

text \<open>
  C5, as the code has it. An index line of one column, or of two columns with an integer
  count, whose pickle file is absent from storage makes the loader log the warning after
  the loading message, yield no set and raise nothing; the loop goes on with the next
  line, so the result of the load is that of the remaining lines.
\<close>

theorem load_missing_record_skipped:
  assumes "line_ok l" and "pickle_files st (pickle_path ivecs_dir l) = None"
  shows "load_line st ivecs_dir lst l =
           ([Info (''[Diarization.load_ivecs] Loading pickle file ''
                     @ hd (split_ws (rstrip l)) @ '' ...''),
             Warning (''[Diarization.load_ivecs] No pickle file found for ''
                     @ hd (split_ws (rstrip l)) @ ''.'')],
            Inr None)
       \<and> load_lines st ivecs_dir lst (l # ls) =
           (fst (load_line st ivecs_dir lst l) @ fst (load_lines st ivecs_dir lst ls),
            snd (load_lines st ivecs_dir lst ls))"
proof -
  have one: "load_line st ivecs_dir lst l =
           ([Info (''[Diarization.load_ivecs] Loading pickle file ''
                     @ hd (split_ws (rstrip l)) @ '' ...''),
             Warning (''[Diarization.load_ivecs] No pickle file found for ''
                     @ hd (split_ws (rstrip l)) @ ''.'')],
            Inr None)"
    using assms
    by (auto simp: load_line_def line_ok_def pickle_path_def Let_def rstrip_idem
             split: list.splits sum.splits)
  show ?thesis
    unfolding one by (simp add: one split: prod.splits sum.splits)
qed

theorem load_missing_record_skipped_witness:
  "line_ok (''rec1 2'' @ [CHR 0x0A])
   \<and> pickle_files (index_storage []) (pickle_path ''ivecs'' (''rec1 2'' @ [CHR 0x0A])) = None
   \<and> snd (load_lines (index_storage []) ''ivecs'' ''list.txt''
            [''rec1 2'' @ [CHR 0x0A], ''rec2'' @ [CHR 0x0A]]) = Inr [ex_set ''rec2'' None]"
proof -
  have a: "line_ok (''rec1 2'' @ [CHR 0x0A])"
    by (simp add: line_ok_def str_simps)
  have b: "pickle_files (index_storage []) (pickle_path ''ivecs'' (''rec1 2'' @ [CHR 0x0A])) = None"
    by (simp add: pickle_path_def index_storage_def str_simps)
  have c: "snd (load_lines (index_storage []) ''ivecs'' ''list.txt'' [''rec2'' @ [CHR 0x0A]])
             = Inr [ex_set ''rec2'' None]"
    by (simp add: load_line_def index_storage_def str_simps)
  have "snd (load_lines (index_storage []) ''ivecs'' ''list.txt''
               [''rec1 2'' @ [CHR 0x0A], ''rec2'' @ [CHR 0x0A]])
      = snd (load_lines (index_storage []) ''ivecs'' ''list.txt'' [''rec2'' @ [CHR 0x0A]])"
    using load_missing_record_skipped [OF a b, of "''list.txt''" "[''rec2'' @ [CHR 0x0A]]"]
    by (simp only: snd_conv)
  with a b c show ?thesis by (simp only: simp_thms)
qed

text \<open>
  C5 fails for a line that names a recording whose record is absent and whose count is
  not an integer: on \<^verbatim>\<open>rec1 x\<close>, with no pickle file for \<^verbatim>\<open>rec1\<close>, line 72 calls
  \<^verbatim>\<open>int\<close> before the file is opened, \<open>ValueError\<close> leaves the loop past the handler
  for \<open>IOError\<close>, no warning is logged and the next line \<^verbatim>\<open>rec2\<close> is never read.
\<close>

theorem load_missing_record_bad_count_raises:
  "pickle_files (index_storage []) (pickle_path ''ivecs'' (''rec1 x'' @ [CHR 0x0A])) = None
   \<and> load_line (index_storage []) ''ivecs'' ''list.txt'' (''rec1 x'' @ [CHR 0x0A])
       = ([Info ''[Diarization.load_ivecs] Loading pickle file rec1 ...''], Inl ValueError)
   \<and> load_lines (index_storage []) ''ivecs'' ''list.txt''
         [''rec1 x'' @ [CHR 0x0A], ''rec2'' @ [CHR 0x0A]]
       = ([Info ''[Diarization.load_ivecs] Loading pickle file rec1 ...''], Inl ValueError)"
  by (simp add: load_line_def index_storage_def pickle_path_def str_simps)

text \<open>
  A line of three or more columns raises the exception of the \<^verbatim>\<open>else\<close> branch, which
  the handler for \<open>IOError\<close> lets pass.
\<close>

lemma load_line_many_columns:
  assumes "length (split_ws (rstrip l)) > 2"
  shows "snd (load_line st ivecs_dir lst l) =
           Inl (DiarizationException
                 (''[Diarization.load_ivecs] Unexpected number of columns in input list ''
                    @ lst @ ''.''))"
  using assms by (auto simp: load_line_def Let_def rstrip_idem split: list.splits)

text \<open>
  A line of two columns whose count is not an integer raises \<open>ValueError\<close>, whether
  its record is present or not, and the load ends there.
\<close>

lemma py_int_error: "py_int tok = Inl e \<Longrightarrow> e = ValueError"
  by (auto simp: py_int_def py_digits_def split: list.splits if_splits sum.splits)

lemma load_line_bad_count:
  assumes "split_ws (rstrip l) = [n, c]" and "py_int c = Inl e"
  shows "load_line st ivecs_dir lst l =
           ([Info (''[Diarization.load_ivecs] Loading pickle file '' @ n @ '' ...'')],
            Inl ValueError)"
  using assms py_int_error [OF assms(2)]
  by (simp add: load_line_def Let_def rstrip_idem)

lemma load_lines_bad_count:
  assumes "split_ws (rstrip l) = [n, c]" and "py_int c = Inl e"
  shows "snd (load_lines st ivecs_dir lst (l # ls)) = Inl ValueError"
  by (simp add: load_line_bad_count [OF assms])

text \<open>
  C6. A line with no column, such as an empty line after \<^verbatim>\<open>rec2\<close>, has a column count
  that is neither one nor two, but the load does not end with \<open>DiarizationException\<close>:
  the loading message takes \<^verbatim>\<open>split()[0]\<close> of the line before the column count is
  tested, and the load ends with \<open>IndexError\<close>.
\<close>

theorem load_blank_line_index_error:
  "load_ivecs (index_storage [''rec2'' @ [CHR 0x0A], [CHR 0x0A]]) ''ivecs'' ''list.txt''
     = ([Info ''[Diarization.load_ivecs] Loading pickle file rec2 ...''], Inl IndexError)"
  by (simp add: load_ivecs_def load_line_def index_storage_def str_simps)







section \<open>Normalized paths are fixed by \<^verbatim>\<open>os.path.normpath\<close>\<close>

lemma split_on_no_sep: "sep \<notin> set w \<Longrightarrow> split_on sep w = [w]"
  by (induction w) auto

lemma split_on_append: "sep \<notin> set w \<Longrightarrow> split_on sep (w @ sep # rest) = w # split_on sep rest"
  by (induction w) auto

lemma split_on_set: "c \<in> set (split_on sep s) \<Longrightarrow> sep \<notin> set c"
  by (induction s arbitrary: c) (auto split: if_splits list.splits)

lemma split_on_join:
  "cs \<noteq> [] \<Longrightarrow> \<forall>c\<in>set cs. sep \<notin> set c \<Longrightarrow> split_on sep (join_on sep cs) = cs"
  by (induction sep cs rule: join_on.induct) (auto simp: split_on_no_sep split_on_append)

lemma normal_step:
  assumes "normal_comps k st" and "CHR ''/'' \<notin> set c"
  shows "normal_comps k (normpath_step k st c)"
proof -
  from assms(1) obtain m ps where st: "st = replicate m ''..'' @ ps"
    and km: "k > 0 \<longrightarrow> m = 0" and ps: "list_all proper_comp ps"
    unfolding normal_comps_def by blast
  consider (skip) "c = [] \<or> c = ''.''" | (up) "c = ''..''" | (proper) "proper_comp c"
    using assms(2) unfolding proper_comp_def by blast
  then show ?thesis
  proof cases
    case skip
    then show ?thesis using assms(1) by (auto simp: normpath_step_def)
  next
    case proper
    then have "normpath_step k st c = st @ [c]"
      by (auto simp: normpath_step_def proper_comp_def)
    moreover have "normal_comps k (replicate m ''..'' @ (ps @ [c]))"
      unfolding normal_comps_def using km ps proper by (intro exI[of _ m] exI[of _ "ps @ [c]"]) simp
    ultimately show ?thesis using st by simp
  next
    case up
    show ?thesis
    proof (cases "ps = []")
      case False
      then have "last st \<noteq> ''..''" "st \<noteq> []"
        using ps st by (auto simp: list_all_iff proper_comp_def dest: last_in_set)
      then have "normpath_step k st c = butlast st"
        using up by (simp add: normpath_step_def)
      also have "\<dots> = replicate m ''..'' @ butlast ps"
        using False st by (simp add: butlast_append)
      finally show ?thesis
        unfolding normal_comps_def using km ps
        by (intro exI[of _ m] exI[of _ "butlast ps"]) (auto simp: list_all_iff dest: in_set_butlastD)
    next
      case True
      show ?thesis
      proof (cases "k = 0")
        case k0: True
        have "normpath_step k st c = replicate (Suc m) ''..''"
          using True st up k0 by (cases m) (auto simp: normpath_step_def replicate_append_same)
        then show ?thesis
          unfolding normal_comps_def using k0
          by (intro exI[of _ "Suc m"] exI[of _ "[]"]) simp
      next
        case False
        then have "st = []" using km st True by simp
        then have "normpath_step k st c = []"
          using up False by (simp add: normpath_step_def)
        then show ?thesis
          unfolding normal_comps_def by (intro exI[of _ 0] exI[of _ "[]"]) simp
      qed
    qed
  qed
qed

lemma normal_foldl:
  "normal_comps k st \<Longrightarrow> \<forall>c\<in>set cs. CHR ''/'' \<notin> set c
     \<Longrightarrow> normal_comps k (foldl (normpath_step k) st cs)"
  by (induction cs arbitrary: st) (auto simp: normal_step)

lemma normal_Nil: "normal_comps k []"
  unfolding normal_comps_def by (intro exI[of _ 0] exI[of _ "[]"]) simp

lemma normal_fixed_aux:
  "list_all proper_comp ps \<Longrightarrow> foldl (normpath_step k) st ps = st @ ps"
  by (induction ps arbitrary: st) (auto simp: normpath_step_def proper_comp_def)

lemma normal_fixed_dots:
  "foldl (normpath_step 0) (replicate j ''..'') (replicate m ''..'') = replicate (j + m) ''..''"
proof (induction m arbitrary: j)
  case 0
  then show ?case by simp
next
  case (Suc m)
  have "normpath_step 0 (replicate j ''..'') ''..'' = replicate (Suc j) ''..''"
    by (cases j) (auto simp: normpath_step_def replicate_append_same)
  then show ?case using Suc [of "Suc j"] by simp
qed

lemma normal_fixed:
  assumes "normal_comps k cs"
  shows "foldl (normpath_step k) [] cs = cs"
proof -
  from assms obtain m ps where cs: "cs = replicate m ''..'' @ ps"
    and km: "k > 0 \<longrightarrow> m = 0" and ps: "list_all proper_comp ps"
    unfolding normal_comps_def by blast
  show ?thesis
  proof (cases "k = 0")
    case True
    then show ?thesis
      using normal_fixed_dots [of 0 m] ps cs by (simp add: normal_fixed_aux)
  next
    case False
    then show ?thesis using km cs ps by (simp add: normal_fixed_aux)
  qed
qed

lemma normal_comps_props:
  assumes "normal_comps k cs"
  shows "\<forall>c\<in>set cs. c \<noteq> [] \<and> CHR ''/'' \<notin> set c"
proof
  fix c assume c: "c \<in> set cs"
  from assms obtain m ps where cs: "cs = replicate m ''..'' @ ps" and ps: "list_all proper_comp ps"
    unfolding normal_comps_def by blast
  from c cs have "c = ''..'' \<or> c \<in> set ps" by auto
  then show "c \<noteq> [] \<and> CHR ''/'' \<notin> set c"
  proof
    assume "c = ''..''" then show ?thesis by simp
  next
    assume "c \<in> set ps"
    with ps have "proper_comp c" by (simp add: list_all_iff)
    then show ?thesis by (simp add: proper_comp_def)
  qed
qed

lemma join_on_hd:
  "cs \<noteq> [] \<Longrightarrow> \<forall>c\<in>set cs. c \<noteq> [] \<Longrightarrow> join_on sep cs \<noteq> [] \<and> hd (join_on sep cs) = hd (hd cs)"
  by (induction sep cs rule: join_on.induct) auto

lemma join_no_leading_slash:
  assumes "normal_comps k cs"
  shows "\<not> prefix ''/'' (join_on CHR ''/'' cs)"
proof (cases "cs = []")
  case True
  then show ?thesis by simp
next
  case False
  with normal_comps_props [OF assms] have ne: "join_on CHR ''/'' cs \<noteq> []"
    and hd: "hd (join_on CHR ''/'' cs) = hd (hd cs)"
    using join_on_hd by blast+
  have "hd cs \<in> set cs" using False by simp
  then have "hd (hd cs) \<noteq> CHR ''/''"
    using normal_comps_props [OF assms] by (metis hd_in_set)
  then show ?thesis using ne hd by (cases "join_on CHR ''/'' cs") auto
qed

lemma initial_slashes_cases: "initial_slashes p = 0 \<or> initial_slashes p = 1 \<or> initial_slashes p = 2"
  by (simp add: initial_slashes_def)

lemma normpath_dot: "normpath ''.'' = ''.''"
  by (simp add: normpath_def initial_slashes_def normpath_step_def)

lemma normpath_idem: "normpath (normpath p) = normpath p"
proof (cases "p = []")
  case True
  then show ?thesis by (simp add: normpath_def [of "[]"] normpath_dot)
next
  case False
  define k where "k = initial_slashes p"
  define cs where "cs = foldl (normpath_step k) [] (split_on CHR ''/'' p)"
  define j where "j = join_on CHR ''/'' cs"
  have nc: "normal_comps k cs"
    unfolding cs_def by (rule normal_foldl [OF normal_Nil]) (auto dest: split_on_set)
  have nls: "\<not> prefix ''/'' j" unfolding j_def by (rule join_no_leading_slash [OF nc])
  have r: "normpath p = (if replicate k CHR ''/'' @ j = [] then ''.'' else replicate k CHR ''/'' @ j)"
    using False by (auto simp: normpath_def Let_def k_def cs_def j_def)
  have props: "\<forall>c\<in>set cs. c \<noteq> [] \<and> CHR ''/'' \<notin> set c" by (rule normal_comps_props [OF nc])
  show ?thesis
  proof (cases "replicate k CHR ''/'' @ j = []")
    case True
    then show ?thesis by (simp add: r normpath_dot)
  next
    case ne: False
    then have rp: "normpath p = replicate k CHR ''/'' @ j" by (simp add: r)
    have sl: "initial_slashes (replicate k CHR ''/'' @ j) = k"
      using initial_slashes_cases [of p] nls unfolding k_def [symmetric]
      by (cases j) (auto simp: initial_slashes_def numeral_2_eq_2)
    have fold: "foldl (normpath_step k) [] (split_on CHR ''/'' (replicate k CHR ''/'' @ j)) = cs"
    proof (cases "cs = []")
      case True
      then have "j = []" by (simp add: j_def)
      then show ?thesis
        using initial_slashes_cases [of p] True unfolding k_def [symmetric]
        by (auto simp: normpath_step_def numeral_2_eq_2)
    next
      case False
      then have "split_on CHR ''/'' j = cs"
        unfolding j_def using props by (simp add: split_on_join)
      then show ?thesis
        using initial_slashes_cases [of p] normal_fixed [OF nc] unfolding k_def [symmetric]
        by (auto simp: normpath_step_def numeral_2_eq_2)
    qed
    have res: "(if k > 0 then replicate k CHR ''/'' @ j else j) = replicate k CHR ''/'' @ j"
      by simp
    show ?thesis
      unfolding rp normpath_def [of "replicate k CHR ''/'' @ j"] Let_def sl fold j_def [symmetric] res
      by (simp only: ne if_False)
  qed
qed


section \<open>Properties of scoring\<close>

lemma ex_set_simps [simp]:
  "name (ex_set nm k) = nm" "num_speakers (ex_set nm k) = k" "size_ivecset (ex_set nm k) = 4"
  by (simp_all add: ex_set_def size_ivecset_def ex_vecs_def)

lemma ex_set_get_all:
  "get_all (ex_set nm k) = [[12/13, 5/13, 0], [12/13, - 5/13, 0], [0, 5/13, 12/13], [0, - 5/13, 12/13]]"
  by (simp add: get_all_def ex_set_def ex_vecs_def)

text \<open>
  The three scoring paths in their order, and the shape of the matrix on the cosine
  path: one row per centroid, one column per embedding, entry \<open>(i, j)\<close> the cosine of
  embedding \<open>j\<close> and centroid \<open>i\<close>.
\<close>

lemma compute_scores_order:
  "compute_scores (Some n) plda X cs = s_norm n X cs"
  "compute_scores None (Some p) X cs = score p X cs"
  "compute_scores None None X cs = map_sum id transpose_m (cosine_similarity X cs)"
  by (simp_all add: compute_scores_def split: sum.splits)

lemma cosine_similarity_shape:
  assumes "cosine_similarity X Y = Inr S"
  shows "X \<noteq> [] \<and> Y \<noteq> [] \<and> length S = length X \<and> (\<forall>r\<in>set S. length r = length Y)
         \<and> (\<forall>r\<in>set (X @ Y). length r = length (hd X))"
  using assms
  by (auto simp: cosine_similarity_def list_all_iff split: list.splits if_splits)

lemma cosine_scores_shape:
  assumes "compute_scores None None X cs = Inr M"
  shows "length M = length cs
         \<and> (\<forall>i<length cs. length (M ! i) = length X
               \<and> (\<forall>j<length X. M ! i ! j = dot (l2_normalize (X ! j)) (l2_normalize (cs ! i))))"
proof -
  from assms obtain S where S: "cosine_similarity X cs = Inr S" and M: "M = transpose_m S"
    by (auto simp: compute_scores_def split: sum.splits)
  from S have ne: "X \<noteq> []" "cs \<noteq> []"
    and Sdef: "S = map (\<lambda>x. map (\<lambda>y. dot (l2_normalize x) (l2_normalize y)) cs) X"
    by (auto simp: cosine_similarity_def split: list.splits if_splits)
  from ne obtain x X' where X: "X = x # X'" by (cases X) auto
  have "M = map (\<lambda>j. map (\<lambda>row. row ! j) S) [0..<length cs]"
    unfolding M transpose_m_def Sdef X by simp
  then show ?thesis
    by (simp add: Sdef)
qed

lemma cosine_scores_total:
  assumes "X \<noteq> []" "cs \<noteq> []" "D > 0" "\<forall>r\<in>set X. length r = D" "\<forall>r\<in>set cs. length r = D"
  shows "\<exists>M. compute_scores None None X cs = Inr M"
  using assms
  by (cases X) (auto simp: compute_scores_def cosine_similarity_def list_all_iff)

text \<open>Four indices cannot be split into clusters of three indices each.\<close>

lemma partition_not_all_three:
  assumes "mset (concat clusters) = mset [0..<4]"
  shows "\<not> list_all (\<lambda>r. length r = 3) (map (map real) clusters)"
proof
  assume "list_all (\<lambda>r. length r = 3) (map (map real) clusters)"
  then have "\<forall>c\<in>set clusters. length c = 3" by (simp add: list_all_iff)
  then have "length (concat clusters) = 3 * length clusters"
    by (induction clusters) auto
  moreover have "length (concat clusters) = 4"
    using assms by (metis size_mset length_upt diff_zero)
  ultimately show False by presburger
qed

text \<open>
  C1. For the example recording without a declared speaker count, with neither
  normalizer nor PLDA model configured, \<^verbatim>\<open>score_ivec\<close> stores no matrix: whatever
  partition of the four embeddings x-means returns, the lists of point indices are
  passed on as centroids, the cosine path is chosen, and \<^verbatim>\<open>cosine_similarity\<close> raises
  \<open>ValueError\<close> on index lists that cannot all have the embeddings' dimension three.
\<close>

theorem score_ivec_unknown_count_raises:
  assumes "xmeans_clusters cl (get_all (ex_set ''rec2'' None)) max_num_speakers = Inr clusters"
      and "mset (concat clusters) = mset [0..<4]"
  shows "score_ivec cl (ex_pipeline [ex_set ''rec2'' None]) max_num_speakers
           = ([Info ''Scoring rec2 ...''], Inl ValueError)"
proof -
  have np: "normpath ''rec2'' = ''rec2''"
    by (simp add: normpath_def initial_slashes_def normpath_step_def)
  have cen: "estimate_centroids cl None (ex_set ''rec2'' None) max_num_speakers
               = Inr (map (map real) clusters)"
    using assms(1) by (simp add: estimate_centroids_def)
  have "cosine_similarity (get_all (ex_set ''rec2'' None)) (map (map real) clusters) = Inl ValueError"
    using partition_not_all_three [OF assms(2)]
    by (simp add: cosine_similarity_def ex_set_get_all eval_nat_numeral)
  then have "compute_scores None None (get_all (ex_set ''rec2'' None)) (map (map real) clusters)
               = Inl ValueError"
    by (simp add: compute_scores_def)
  then show ?thesis
    by (simp add: score_ivec_def ex_pipeline_def score_set_def np cen)
qed

theorem score_ivec_unknown_count_raises_witness:
  "xmeans_clusters ex_clustering (get_all (ex_set ''rec2'' None)) 6 = Inr [[0, 1], [2, 3]]
   \<and> mset (concat [[0, 1], [2, 3::nat]]) = mset [0..<4]
   \<and> score_ivec ex_clustering (ex_pipeline [ex_set ''rec2'' None]) 6
        = ([Info ''Scoring rec2 ...''], Inl ValueError)"
proof -
  have a: "xmeans_clusters ex_clustering (get_all (ex_set ''rec2'' None)) 6 = Inr [[0, 1], [2, 3]]"
    by (simp add: ex_clustering_def)
  have b: "mset (concat [[0, 1], [2, 3::nat]]) = mset [0..<4]"
    by (simp add: upt_conv_Cons eval_nat_numeral)
  from score_ivec_unknown_count_raises [OF a b] a b show ?thesis by (simp only: simp_thms)
qed

text \<open>
  C3. For a set without a declared speaker count, what \<^verbatim>\<open>score_ivec\<close> takes as
  centroids is the value of \<^verbatim>\<open>xm.get_clusters()\<close>: the clusters as lists of point
  indices, not the centres. When the clusters partition the points, every entry of these
  lists is the index of a point and their lengths add up to the number of embeddings;
  they are not vectors of the embedding dimension.
\<close>

theorem unknown_count_centroids_are_index_lists:
  assumes "num_speakers s = None"
      and "xmeans_clusters cl (get_all s) max_num_speakers = Inr clusters"
      and "mset (concat clusters) = mset [0..<size_ivecset s]"
  shows "estimate_centroids cl plda s max_num_speakers = Inr (map (map real) clusters)
         \<and> list_all (list_all (\<lambda>x. \<exists>i<size_ivecset s. x = real i)) (map (map real) clusters)
         \<and> sum_list (map length (map (map real) clusters)) = size_ivecset s"
proof -
  have "length (concat clusters) = size_ivecset s"
    using assms(3) by (metis size_mset length_upt diff_zero)
  then have total: "sum_list (map length (map (map real) clusters)) = size_ivecset s"
    by (simp add: length_concat comp_def)
  have "set (concat clusters) = {0..<size_ivecset s}"
    using assms(3) by (metis set_mset_mset set_upt)
  then have "\<forall>c\<in>set clusters. \<forall>i\<in>set c. i < size_ivecset s" by auto
  then have "list_all (list_all (\<lambda>x. \<exists>i<size_ivecset s. x = real i)) (map (map real) clusters)"
    by (auto simp: list_all_iff)
  with total show ?thesis using assms(1,2) by (simp add: estimate_centroids_def)
qed

theorem unknown_count_centroids_are_index_lists_witness:
  "num_speakers (ex_set ''rec2'' None) = None
   \<and> xmeans_clusters ex_clustering (get_all (ex_set ''rec2'' None)) 6 = Inr [[0, 1], [2, 3]]
   \<and> mset (concat [[0, 1], [2, 3::nat]]) = mset [0..<size_ivecset (ex_set ''rec2'' None)]
   \<and> estimate_centroids ex_clustering None (ex_set ''rec2'' None) 6 = Inr [[0, 1], [2, 3]]
   \<and> list_all (\<lambda>v. length (data v) = 3) (ivecs (ex_set ''rec2'' None))
   \<and> \<not> list_all (\<lambda>c. length c = 3) [[0, 1], [2, 3::real]]"
proof -
  have a: "num_speakers (ex_set ''rec2'' None) = None" by simp
  have b: "xmeans_clusters ex_clustering (get_all (ex_set ''rec2'' None)) 6 = Inr [[0, 1], [2, 3]]"
    by (simp add: ex_clustering_def)
  have c: "mset (concat [[0, 1], [2, 3::nat]]) = mset [0..<size_ivecset (ex_set ''rec2'' None)]"
    by (simp add: upt_conv_Cons eval_nat_numeral)
  have d: "list_all (\<lambda>v. length (data v) = 3) (ivecs (ex_set ''rec2'' None))"
    by (simp add: ex_set_def ex_vecs_def)
  have e: "\<not> list_all (\<lambda>c. length c = 3) [[0, 1], [2, 3::real]]" by simp
  have "estimate_centroids ex_clustering None (ex_set ''rec2'' None) 6 = Inr [[0, 1], [2, 3]]"
    using unknown_count_centroids_are_index_lists [OF a b c, of None] by simp
  with a b c d e show ?thesis by (simp only: simp_thms)
qed

text \<open>
  C4. On a set with no embedding, the pass of \<^verbatim>\<open>score_ivec\<close> logs the warning after
  the scoring message, returns the dictionary as it was and raises nothing; it is the
  same for every clustering collaborator, so none is called; and the loop goes on with
  the remaining sets from the unchanged dictionary.
\<close>

theorem score_empty_set_skipped:
  assumes "size_ivecset s = 0"
  shows "score_set cl d max_num_speakers scores_dict s =
           ([Info (''Scoring '' @ normpath (name s) @ '' ...''),
             Warning (''[Diarization.score] No i-vectors to score in '' @ name s @ ''.'')],
            Inr scores_dict)
       \<and> (\<forall>cl'. score_set cl' d max_num_speakers scores_dict s
                  = score_set cl d max_num_speakers scores_dict s)
       \<and> score_loop cl d max_num_speakers scores_dict (s # ss) =
           (fst (score_set cl d max_num_speakers scores_dict s)
              @ fst (score_loop cl d max_num_speakers scores_dict ss),
            snd (score_loop cl d max_num_speakers scores_dict ss))"
  using assms by (simp add: score_set_def split: prod.splits)

theorem score_empty_set_skipped_witness:
  "size_ivecset ex_empty = 0
   \<and> score_ivec ex_clustering (ex_pipeline [ex_empty]) 6 =
       ([Info ''Scoring silence ...'',
         Warning ''[Diarization.score] No i-vectors to score in silence.''],
        Inr Map.empty)"
proof -
  have a: "size_ivecset ex_empty = 0" by (simp add: ex_empty_def size_ivecset_def)
  have np: "normpath ''silence'' = ''silence''"
    by (simp add: normpath_def initial_slashes_def normpath_step_def)
  have nm: "name ex_empty = ''silence''" by (simp add: ex_empty_def)
  from score_empty_set_skipped [OF a, of ex_clustering "ex_pipeline [ex_empty]" 6 Map.empty "[]"]
  have step: "score_set ex_clustering (ex_pipeline [ex_empty]) 6 Map.empty ex_empty =
           ([Info (''Scoring '' @ normpath (name ex_empty) @ '' ...''),
             Warning (''[Diarization.score] No i-vectors to score in '' @ name ex_empty @ ''.'')],
            Inr Map.empty)"
    and loop: "score_loop ex_clustering (ex_pipeline [ex_empty]) 6 Map.empty [ex_empty] =
           (fst (score_set ex_clustering (ex_pipeline [ex_empty]) 6 Map.empty ex_empty)
              @ fst (score_loop ex_clustering (ex_pipeline [ex_empty]) 6 Map.empty []),
            snd (score_loop ex_clustering (ex_pipeline [ex_empty]) 6 Map.empty []))"
    by blast+
  have "score_loop ex_clustering (ex_pipeline [ex_empty]) 6 Map.empty [ex_empty] =
       ([Info ''Scoring silence ...'',
         Warning ''[Diarization.score] No i-vectors to score in silence.''],
        Inr Map.empty)"
    unfolding loop step by (simp add: nm np)
  then have "score_ivec ex_clustering (ex_pipeline [ex_empty]) 6 =
       ([Info ''Scoring silence ...'',
         Warning ''[Diarization.score] No i-vectors to score in silence.''],
        Inr Map.empty)"
    by (simp add: score_ivec_def ex_pipeline_def)
  with a show ?thesis by (simp only: simp_thms)
qed


section \<open>Properties of the timelines\<close>

text \<open>The scan of \<^verbatim>\<open>np.argmax\<close> returns the first index of a greatest entry.\<close>

lemma argmax_from_first_greatest:
  assumes "length pre = i" "best < i" "pre ! best = bv"
      and "\<forall>k<i. pre ! k \<le> bv" "\<forall>k<best. pre ! k < bv"
  shows "argmax_from xs i best bv < i + length xs
         \<and> (\<forall>k<i + length xs. (pre @ xs) ! k \<le> (pre @ xs) ! argmax_from xs i best bv)
         \<and> (\<forall>k<argmax_from xs i best bv. (pre @ xs) ! k < (pre @ xs) ! argmax_from xs i best bv)"
  using assms
proof (induction xs arbitrary: pre i best bv)
  case Nil
  then show ?case by simp
next
  case (Cons x xs)
  show ?case
  proof (cases "bv < x")
    case True
    have "argmax_from xs (Suc i) i x < Suc i + length xs
         \<and> (\<forall>k<Suc i + length xs. ((pre @ [x]) @ xs) ! k \<le> ((pre @ [x]) @ xs) ! argmax_from xs (Suc i) i x)
         \<and> (\<forall>k<argmax_from xs (Suc i) i x. ((pre @ [x]) @ xs) ! k < ((pre @ [x]) @ xs) ! argmax_from xs (Suc i) i x)"
    proof (rule Cons.IH)
      show "length (pre @ [x]) = Suc i" using Cons.prems(1) by simp
      show "i < Suc i" by simp
      show "(pre @ [x]) ! i = x" using Cons.prems(1) by (simp add: nth_append)
      show "\<forall>k<Suc i. (pre @ [x]) ! k \<le> x"
        using Cons.prems(1,4) True by (auto simp: nth_append less_Suc_eq intro: order_trans less_imp_le)
      show "\<forall>k<i. (pre @ [x]) ! k < x"
        using Cons.prems(1,4) True by (auto simp: nth_append intro: le_less_trans)
    qed
    then show ?thesis using True by simp
  next
    case False
    have "argmax_from xs (Suc i) best bv < Suc i + length xs
         \<and> (\<forall>k<Suc i + length xs. ((pre @ [x]) @ xs) ! k \<le> ((pre @ [x]) @ xs) ! argmax_from xs (Suc i) best bv)
         \<and> (\<forall>k<argmax_from xs (Suc i) best bv. ((pre @ [x]) @ xs) ! k < ((pre @ [x]) @ xs) ! argmax_from xs (Suc i) best bv)"
    proof (rule Cons.IH)
      show "length (pre @ [x]) = Suc i" using Cons.prems(1) by simp
      show "best < Suc i" using Cons.prems(2) by simp
      show "(pre @ [x]) ! best = bv" using Cons.prems(1,2,3) by (simp add: nth_append)
      show "\<forall>k<Suc i. (pre @ [x]) ! k \<le> bv"
        using Cons.prems(1,4) False by (auto simp: nth_append less_Suc_eq)
      show "\<forall>k<best. (pre @ [x]) ! k < bv"
        using Cons.prems(1,2,5) by (auto simp: nth_append)
    qed
    then show ?thesis using False by simp
  qed
qed

lemma argmax_first_greatest:
  assumes "argmax xs = Inr idx"
  shows "idx < length xs \<and> (\<forall>k<length xs. xs ! k \<le> xs ! idx) \<and> (\<forall>k<idx. xs ! k < xs ! idx)"
proof (cases xs)
  case Nil
  with assms show ?thesis by (simp add: argmax_def)
next
  case (Cons x rest)
  with assms have idx: "idx = argmax_from rest 1 0 x" by (simp add: argmax_def)
  have "argmax_from rest 1 0 x < 1 + length rest
         \<and> (\<forall>k<1 + length rest. ([x] @ rest) ! k \<le> ([x] @ rest) ! argmax_from rest 1 0 x)
         \<and> (\<forall>k<argmax_from rest 1 0 x. ([x] @ rest) ! k < ([x] @ rest) ! argmax_from rest 1 0 x)"
    by (rule argmax_from_first_greatest) simp_all
  then show ?thesis using Cons idx by simp
qed

lemma argmax_of_column:
  assumes "column M j = Inr col" and "argmax col = Inr idx"
  shows "is_argmax_of_column M j idx"
proof -
  from assms(1) have col: "col = map (\<lambda>row. row ! j) M"
    by (simp add: column_def split: if_splits)
  from argmax_first_greatest [OF assms(2)] col
  have a: "idx < length M" and b: "\<forall>k<length M. M ! k ! j \<le> M ! idx ! j"
    and c: "\<forall>k<idx. M ! k ! j < M ! idx ! j"
    by auto
  have "list_all (\<lambda>row. row ! j \<le> M ! idx ! j) M"
    using b by (auto simp: list_all_iff in_set_conv_nth)
  moreover have "list_all (\<lambda>row. row ! j < M ! idx ! j) (take idx M)"
    using a c by (auto simp: list_all_iff in_set_conv_nth)
  ultimately show ?thesis using a by (simp add: is_argmax_of_column_def)
qed
lemma dump_segments_tuples:
  assumes "dump_segments (Some M) reg i vs = Inr ls"
  shows "length ls = length vs
         \<and> (\<forall>k<length vs. rec_id (ls ! k) = reg \<and> tuple_ok M (vs ! k) (i + k) (ls ! k))"
  using assms
proof (induction vs arbitrary: i ls)
  case Nil
  then show ?case by simp
next
  case (Cons v vs)
  from Cons.prems obtain col idx rest where col: "column M i = Inr col"
    and idx: "argmax col = Inr idx"
    and rest: "dump_segments (Some M) reg (Suc i) vs = Inr rest"
    and ls: "ls = \<lparr>rec_id = reg, start_s = window_start v / 1000,
                    duration_s = (window_end v - window_start v) / 1000, spkr_idx = idx\<rparr> # rest"
    by (auto split: sum.splits)
  have hd: "tuple_ok M v i (hd ls)"
    using argmax_of_column [OF col idx] ls by (simp add: tuple_ok_def)
  from Cons.IH [OF rest] have len: "length rest = length vs"
    and tl: "\<forall>k<length vs. rec_id (rest ! k) = reg \<and> tuple_ok M (vs ! k) (Suc i + k) (rest ! k)"
    by auto
  show ?case
  proof (intro conjI allI impI)
    show "length ls = length (v # vs)" using ls len by simp
  next
    fix k assume "k < length (v # vs)"
    then show "rec_id (ls ! k) = reg" using ls tl by (cases k) auto
  next
    fix k assume "k < length (v # vs)"
    then show "tuple_ok M ((v # vs) ! k) (i + k) (ls ! k)"
      using hd ls tl by (cases k) auto
  qed
qed

lemma dump_segments_total:
  assumes "M \<noteq> []" and "\<forall>row\<in>set M. i + length vs \<le> length row"
  shows "\<exists>ls. dump_segments (Some M) reg i vs = Inr ls"
  using assms
proof (induction vs arbitrary: i)
  case Nil
  then show ?case by simp
next
  case (Cons v vs)
  then have col: "column M i = Inr (map (\<lambda>row. row ! i) M)"
    by (auto simp: column_def list_all_iff)
  from Cons.prems(1) obtain idx where idx: "argmax (map (\<lambda>row. row ! i) M) = Inr idx"
    by (cases M) (auto simp: argmax_def)
  from Cons.prems have "\<forall>row\<in>set M. Suc i + length vs \<le> length row" by simp
  from Cons.IH [OF Cons.prems(1) this] obtain rest
    where "dump_segments (Some M) reg (Suc i) vs = Inr rest" by blast
  then show ?case using col idx by simp
qed

lemma dump_segments_no_key_error:
  "dump_segments (Some M) reg i vs \<noteq> Inl KeyError"
proof (induction vs arbitrary: i)
  case Nil
  then show ?case by simp
next
  case (Cons v vs)
  have "column M i \<noteq> Inl KeyError" by (simp add: column_def)
  moreover have "argmax col \<noteq> Inl KeyError" for col
    by (cases col) (simp_all add: argmax_def)
  ultimately show ?case using Cons.IH [of "Suc i"]
    by (auto split: sum.splits)
qed
lemma renamed_ivecs [simp]: "ivecs (renamed s) = ivecs s"
  and renamed_num_speakers [simp]: "num_speakers (renamed s) = num_speakers s"
  and renamed_size [simp]: "size_ivecset (renamed s) = size_ivecset s"
  by (simp_all add: renamed_def size_ivecset_def)

lemma dump_set_renames: "fst (dump_set scores out_dir s) = renamed s"
  by (auto simp: dump_set_def renamed_def Let_def split: sum.splits)

lemma dump_set_timeline:
  assumes "size_ivecset s > 0" "scores (name s) = Some M" "M \<noteq> []"
      and "\<forall>row\<in>set M. length row = size_ivecset s"
  shows "\<exists>f. dump_set scores out_dir s = (renamed s, [], Inr [f])
             \<and> file_path f = path_join out_dir (name s @ ''.rttm'') \<and> timeline_ok scores s f"
proof -
  let ?reg = "strip_slash_rest False (name (renamed s))"
  have "\<forall>row\<in>set M. 0 + length (ivecs s) \<le> length row"
    using assms(4) by (simp add: size_ivecset_def)
  from dump_segments_total [OF assms(3) this] obtain ls
    where ls: "dump_segments (Some M) ?reg 0 (ivecs s) = Inr ls" by blast
  from dump_segments_tuples [OF ls]
  have len: "length ls = length (ivecs s)"
    and reg: "\<forall>k<length (ivecs s). rec_id (ls ! k) = ?reg"
    and tup: "\<forall>k<length (ivecs s). tuple_ok M (ivecs s ! k) k (ls ! k)" by auto
  let ?f = "\<lparr>file_path = path_join out_dir (name s @ ''.rttm''), file_lines = ls\<rparr>"
  have "dump_set scores out_dir s = (renamed s, [], Inr [?f])"
    using assms(1,2) ls by (auto simp: dump_set_def renamed_def Let_def)
  moreover have "list_all (\<lambda>t. rec_id t = ?reg) ls"
    using reg len by (auto simp: list_all_iff in_set_conv_nth)
  then have "timeline_ok scores s ?f"
    using assms(2) len tup by (simp add: timeline_ok_def list_all_iff)
  ultimately show ?thesis by auto
qed

lemma dump_set_empty:
  assumes "size_ivecset s = 0"
  shows "dump_set scores out_dir s =
           (s, [Warning (''[Diarization.dump_rttm] No i-vectors to dump in '' @ name s @ ''.'')], Inr [])"
  using assms by (simp add: dump_set_def)

text \<open>
  C2. When the scores hold, under the name of every set with at least one embedding, a
  matrix with at least one centroid row and one column per embedding, \<^verbatim>\<open>dump_rttm\<close>
  raises nothing and writes one file per such set, in order, and each file is the
  timeline of its set: one tuple per segment, with start equal to the segment's start
  milliseconds divided by 1000, duration equal to end minus start milliseconds divided
  by 1000, and speaker index the 0-based argmax over the centroid rows of the segment's
  column.
\<close>

theorem dump_rttm_timeline:
  assumes "\<forall>s\<in>set (self_ivecs d). size_ivecset s > 0 \<longrightarrow>
             (\<exists>M. scores (name s) = Some M \<and> M \<noteq> [] \<and> (\<forall>row\<in>set M. length row = size_ivecset s))"
  shows "\<exists>d' lg fs. dump_rttm d scores out_dir = (d', lg, Inr fs)
           \<and> list_all2 (timeline_ok scores) (filter (\<lambda>s. size_ivecset s > 0) (self_ivecs d)) fs"
proof -
  have "\<exists>sets' lg fs. dump_loop scores out_dir sets = (sets', lg, Inr fs)
           \<and> list_all2 (timeline_ok scores) (filter (\<lambda>s. size_ivecset s > 0) sets) fs"
    if "\<forall>s\<in>set sets. size_ivecset s > 0 \<longrightarrow>
             (\<exists>M. scores (name s) = Some M \<and> M \<noteq> [] \<and> (\<forall>row\<in>set M. length row = size_ivecset s))"
    for sets
    using that
  proof (induction sets)
    case Nil
    then show ?case by simp
  next
    case (Cons s sets)
    then obtain sets' lg fs where rest: "dump_loop scores out_dir sets = (sets', lg, Inr fs)"
      and ok: "list_all2 (timeline_ok scores) (filter (\<lambda>s. size_ivecset s > 0) sets) fs"
      by auto
    show ?case
    proof (cases "size_ivecset s > 0")
      case True
      with Cons.prems obtain M where m1: "scores (name s) = Some M" and m2: "M \<noteq> []"
        and m3: "\<forall>row\<in>set M. length row = size_ivecset s" by auto
      from dump_set_timeline [where scores = scores and s = s, OF True m1 m2 m3] obtain f
        where "dump_set scores out_dir s = (renamed s, [], Inr [f])" "timeline_ok scores s f"
        by blast
      then show ?thesis using rest ok True by simp
    next
      case False
      then show ?thesis using rest ok by (simp add: dump_set_empty)
    qed
  qed
  from this [OF assms] show ?thesis
    by (auto simp: dump_rttm_def)
qed


subsection \<open>The timelines of the example recording\<close>

lemma ex_set_more [simp]:
  "ivecs (ex_set nm k) = ex_vecs" "(ex_set nm k)\<lparr>name := nm'\<rparr> = ex_set nm' k"
  by (simp_all add: ex_set_def)

lemma no_beamformed_in_rec2: "\<not> sublist ''beamformed'' ''rec2''"
  by (simp add: sublist_Cons_right)

lemma beamformed_in_name: "sublist ''beamformed'' ''beamformed/rec2''"
  by (simp add: sublist_Cons_right)

lemma beamformed_in_double_slash_name: "sublist ''beamformed'' ''beamformed//rec2''"
  by (simp add: sublist_Cons_right)

lemma delete_beamformed: "re_sub_delete ''beamformed/'' ''beamformed/rec2'' = ''rec2''"
  by simp

lemma delete_beamformed_double_slash: "re_sub_delete ''beamformed/'' ''beamformed//rec2'' = ''/rec2''"
  by simp

lemma reg_name_rec2: "strip_slash_rest False ''rec2'' = ''rec2''"
  by simp

lemma ex_segments: "dump_segments (Some ex_matrix) reg 0 ex_vecs =
   Inr [\<lparr>rec_id = reg, start_s = 0, duration_s = 3/2, spkr_idx = 0\<rparr>,
                          \<lparr>rec_id = reg, start_s = 3/2, duration_s = 3/4, spkr_idx = 0\<rparr>,
                          \<lparr>rec_id = reg, start_s = 9/4, duration_s = 7/4, spkr_idx = 1\<rparr>,
                          \<lparr>rec_id = reg, start_s = 4, duration_s = 1/2, spkr_idx = 1\<rparr>]"
  by (simp add: ex_vecs_def ex_matrix_def column_def argmax_def)

lemma ex_dump_rec2:
  "dump_rttm (ex_pipeline [ex_set ''rec2'' None]) [''rec2'' \<mapsto> ex_matrix] ''out'' =
     (ex_pipeline [ex_set ''rec2'' None], [],
      Inr [\<lparr>file_path = ''out/rec2.rttm'',
            file_lines = [\<lparr>rec_id = ''rec2'', start_s = 0, duration_s = 3/2, spkr_idx = 0\<rparr>,
                          \<lparr>rec_id = ''rec2'', start_s = 3/2, duration_s = 3/4, spkr_idx = 0\<rparr>,
                          \<lparr>rec_id = ''rec2'', start_s = 9/4, duration_s = 7/4, spkr_idx = 1\<rparr>,
                          \<lparr>rec_id = ''rec2'', start_s = 4, duration_s = 1/2, spkr_idx = 1\<rparr>]\<rparr>])"
proof -
  have "dump_set [''rec2'' \<mapsto> ex_matrix] ''out'' (ex_set ''rec2'' None) =
     (ex_set ''rec2'' None, [],
      Inr [\<lparr>file_path = ''out/rec2.rttm'',
            file_lines = [\<lparr>rec_id = ''rec2'', start_s = 0, duration_s = 3/2, spkr_idx = 0\<rparr>,
                          \<lparr>rec_id = ''rec2'', start_s = 3/2, duration_s = 3/4, spkr_idx = 0\<rparr>,
                          \<lparr>rec_id = ''rec2'', start_s = 9/4, duration_s = 7/4, spkr_idx = 1\<rparr>,
                          \<lparr>rec_id = ''rec2'', start_s = 4, duration_s = 1/2, spkr_idx = 1\<rparr>]\<rparr>])"
    by (simp add: dump_set_def Let_def no_beamformed_in_rec2 ex_segments path_join_def)
  then show ?thesis
    by (simp add: dump_rttm_def ex_pipeline_def)
qed

lemma ex_dump_beam:
  "dump_rttm (ex_pipeline [ex_set ''beamformed/rec2'' (Some 2)]) [''beamformed/rec2'' \<mapsto> ex_matrix] ''out'' =
     (ex_pipeline [ex_set ''rec2'' (Some 2)], [],
      Inr [\<lparr>file_path = ''out/beamformed/rec2.rttm'',
            file_lines = [\<lparr>rec_id = ''rec2'', start_s = 0, duration_s = 3/2, spkr_idx = 0\<rparr>,
                          \<lparr>rec_id = ''rec2'', start_s = 3/2, duration_s = 3/4, spkr_idx = 0\<rparr>,
                          \<lparr>rec_id = ''rec2'', start_s = 9/4, duration_s = 7/4, spkr_idx = 1\<rparr>,
                          \<lparr>rec_id = ''rec2'', start_s = 4, duration_s = 1/2, spkr_idx = 1\<rparr>]\<rparr>])"
proof -
  have "dump_set [''beamformed/rec2'' \<mapsto> ex_matrix] ''out'' (ex_set ''beamformed/rec2'' (Some 2)) =
     (ex_set ''rec2'' (Some 2), [],
      Inr [\<lparr>file_path = ''out/beamformed/rec2.rttm'',
            file_lines = [\<lparr>rec_id = ''rec2'', start_s = 0, duration_s = 3/2, spkr_idx = 0\<rparr>,
                          \<lparr>rec_id = ''rec2'', start_s = 3/2, duration_s = 3/4, spkr_idx = 0\<rparr>,
                          \<lparr>rec_id = ''rec2'', start_s = 9/4, duration_s = 7/4, spkr_idx = 1\<rparr>,
                          \<lparr>rec_id = ''rec2'', start_s = 4, duration_s = 1/2, spkr_idx = 1\<rparr>]\<rparr>])"
    by (simp add: dump_set_def Let_def beamformed_in_name ex_segments path_join_def)
  then show ?thesis
    by (simp add: dump_rttm_def ex_pipeline_def)
qed

lemma dump_segments_key_error: "vs \<noteq> [] \<Longrightarrow> dump_segments None reg i vs = Inl KeyError"
  by (cases vs) simp_all

lemma ex_dump_beam2:
  "dump_rttm (ex_pipeline [ex_set ''beamformed//rec2'' (Some 2)]) [''beamformed/rec2'' \<mapsto> ex_matrix] ''out'' =
     (ex_pipeline [ex_set ''/rec2'' (Some 2)], [], Inl KeyError)"
proof -
  have "ex_vecs \<noteq> []" by (simp add: ex_vecs_def)
  then have "dump_segments None reg 0 ex_vecs = Inl KeyError" for reg
    by (rule dump_segments_key_error)
  then have "dump_set [''beamformed/rec2'' \<mapsto> ex_matrix] ''out'' (ex_set ''beamformed//rec2'' (Some 2)) =
     (ex_set ''/rec2'' (Some 2), [], Inl KeyError)"
    by (simp add: dump_set_def Let_def beamformed_in_double_slash_name)
  then show ?thesis
    by (simp add: dump_rttm_def ex_pipeline_def)
qed

theorem dump_rttm_timeline_witness:
  "[''rec2'' \<mapsto> ex_matrix] (name (ex_set ''rec2'' None)) = Some ex_matrix
   \<and> ex_matrix \<noteq> [] \<and> list_all (\<lambda>row. length row = size_ivecset (ex_set ''rec2'' None)) ex_matrix
   \<and> (\<exists>d' lg fs. dump_rttm (ex_pipeline [ex_set ''rec2'' None]) [''rec2'' \<mapsto> ex_matrix] ''out''
                       = (d', lg, Inr fs)
          \<and> list_all2 (timeline_ok [''rec2'' \<mapsto> ex_matrix])
               (filter (\<lambda>s. size_ivecset s > 0) (self_ivecs (ex_pipeline [ex_set ''rec2'' None]))) fs)
   \<and> snd (snd (dump_rttm (ex_pipeline [ex_set ''rec2'' None]) [''rec2'' \<mapsto> ex_matrix] ''out'')) =
      Inr [\<lparr>file_path = ''out/rec2.rttm'',
            file_lines = [\<lparr>rec_id = ''rec2'', start_s = 0, duration_s = 3/2, spkr_idx = 0\<rparr>,
                          \<lparr>rec_id = ''rec2'', start_s = 3/2, duration_s = 3/4, spkr_idx = 0\<rparr>,
                          \<lparr>rec_id = ''rec2'', start_s = 9/4, duration_s = 7/4, spkr_idx = 1\<rparr>,
                          \<lparr>rec_id = ''rec2'', start_s = 4, duration_s = 1/2, spkr_idx = 1\<rparr>]\<rparr>]"
proof -
  have a: "[''rec2'' \<mapsto> ex_matrix] (name (ex_set ''rec2'' None)) = Some ex_matrix" by simp
  have b: "ex_matrix \<noteq> []" by (simp add: ex_matrix_def)
  have c: "list_all (\<lambda>row. length row = size_ivecset (ex_set ''rec2'' None)) ex_matrix"
    by (simp add: ex_matrix_def)
  have hyp: "\<forall>s\<in>set (self_ivecs (ex_pipeline [ex_set ''rec2'' None])). size_ivecset s > 0 \<longrightarrow>
             (\<exists>M. [''rec2'' \<mapsto> ex_matrix] (name s) = Some M \<and> M \<noteq> []
                   \<and> (\<forall>row\<in>set M. length row = size_ivecset s))"
    using b c by (simp add: ex_pipeline_def list_all_iff)
  note d = dump_rttm_timeline [OF hyp, of "''out''"]
  have e: "snd (snd (dump_rttm (ex_pipeline [ex_set ''rec2'' None]) [''rec2'' \<mapsto> ex_matrix] ''out'')) =
      Inr [\<lparr>file_path = ''out/rec2.rttm'',
            file_lines = [\<lparr>rec_id = ''rec2'', start_s = 0, duration_s = 3/2, spkr_idx = 0\<rparr>,
                          \<lparr>rec_id = ''rec2'', start_s = 3/2, duration_s = 3/4, spkr_idx = 0\<rparr>,
                          \<lparr>rec_id = ''rec2'', start_s = 9/4, duration_s = 7/4, spkr_idx = 1\<rparr>,
                          \<lparr>rec_id = ''rec2'', start_s = 4, duration_s = 1/2, spkr_idx = 1\<rparr>]\<rparr>]"
    by (simp only: ex_dump_rec2 snd_conv)
  from a b c d e show ?thesis by (simp only: simp_thms)
qed


section \<open>The sets after \<^verbatim>\<open>dump_rttm\<close>\<close>

lemma dump_loop_sets:
  "\<exists>k. fst (dump_loop scores out_dir sets) = map renamed (take k sets) @ drop k sets"
proof (induction sets)
  case Nil
  then show ?case by simp
next
  case (Cons s sets)
  then obtain k where k: "fst (dump_loop scores out_dir sets) = map renamed (take k sets) @ drop k sets"
    by blast
  have s': "fst (dump_set scores out_dir s) = renamed s" by (rule dump_set_renames)
  show ?case
  proof (cases "snd (snd (dump_set scores out_dir s))")
    case (Inl e)
    then have "fst (dump_loop scores out_dir (s # sets)) = renamed s # sets"
      using s' by (cases "dump_set scores out_dir s") auto
    then have "fst (dump_loop scores out_dir (s # sets))
                 = map renamed (take 1 (s # sets)) @ drop 1 (s # sets)" by simp
    then show ?thesis by blast
  next
    case (Inr fs)
    then have "fst (dump_loop scores out_dir (s # sets))
                 = renamed s # fst (dump_loop scores out_dir sets)"
      using s' by (cases "dump_set scores out_dir s"; cases "dump_loop scores out_dir sets")
                  (auto split: sum.splits)
    then have "fst (dump_loop scores out_dir (s # sets))
                 = map renamed (take (Suc k) (s # sets)) @ drop (Suc k) (s # sets)"
      using k by simp
    then show ?thesis by blast
  qed
qed

lemma dump_loop_sets_complete:
  "snd (snd (dump_loop scores out_dir sets)) = Inr fs
     \<Longrightarrow> fst (dump_loop scores out_dir sets) = map renamed sets"
proof (induction sets arbitrary: fs)
  case Nil
  then show ?case by simp
next
  case (Cons s sets)
  have s': "fst (dump_set scores out_dir s) = renamed s" by (rule dump_set_renames)
  from Cons.prems obtain fs' where "snd (snd (dump_loop scores out_dir sets)) = Inr fs'"
    by (cases "dump_set scores out_dir s"; cases "dump_loop scores out_dir sets")
       (auto split: sum.splits)
  from Cons.IH [OF this] Cons.prems s' show ?case
    by (cases "dump_set scores out_dir s"; cases "dump_loop scores out_dir sets")
       (auto split: sum.splits)
qed

lemma renamed_unchanged:
  "size_ivecset s = 0 \<or> \<not> sublist ''beamformed'' (name s) \<Longrightarrow> renamed s = s"
  by (auto simp: renamed_def)

lemma map_renamed_prefix:
  assumes "\<forall>s. f (renamed s) = f s"
  shows "map f (map renamed (take k xs) @ drop k xs) = map f xs"
proof -
  have "map f (map renamed (take k xs)) = map f (take k xs)"
    using assms by (simp add: comp_def)
  then have "map f (map renamed (take k xs) @ drop k xs) = map f (take k xs) @ map f (drop k xs)"
    by simp
  also have "\<dots> = map f (take k xs @ drop k xs)" by (simp only: map_append)
  also have "\<dots> = map f xs" by (simp only: append_take_drop_id)
  finally show ?thesis .
qed

text \<open>
  C8, as the code has it. \<^verbatim>\<open>dump_rttm\<close> changes nothing of the pipeline object but the
  names of sets: the sets it has passed when it returns or raises are renamed, a
  non-empty set whose name contains \<^verbatim>\<open>beamformed\<close> losing every \<^verbatim>\<open>beamformed/\<close> of
  its name, and the others are as they were. When it returns, every set is renamed.
  The embeddings and the declared speaker count of every set are unchanged, and when no
  non-empty set has \<^verbatim>\<open>beamformed\<close> in its name, no set changes at all.
\<close>

theorem dump_rttm_changes_only_names:
  assumes "dump_rttm d scores out_dir = (d', lg, r)"
  shows "input_list d' = input_list d \<and> self_norm d' = self_norm d \<and> self_plda d' = self_plda d
       \<and> (\<exists>k. self_ivecs d' = map renamed (take k (self_ivecs d)) @ drop k (self_ivecs d))
       \<and> (\<forall>fs. r = Inr fs \<longrightarrow> self_ivecs d' = map renamed (self_ivecs d))
       \<and> map ivecs (self_ivecs d') = map ivecs (self_ivecs d)
       \<and> map num_speakers (self_ivecs d') = map num_speakers (self_ivecs d)
       \<and> ((\<forall>s\<in>set (self_ivecs d). size_ivecset s = 0 \<or> \<not> sublist ''beamformed'' (name s))
            \<longrightarrow> self_ivecs d' = self_ivecs d)"
proof -
  from assms have d': "d' = d\<lparr>self_ivecs := fst (dump_loop scores out_dir (self_ivecs d))\<rparr>"
    and r: "r = snd (snd (dump_loop scores out_dir (self_ivecs d)))"
    by (auto simp: dump_rttm_def split: prod.splits)
  obtain k where k: "self_ivecs d' = map renamed (take k (self_ivecs d)) @ drop k (self_ivecs d)"
    using dump_loop_sets [of scores out_dir "self_ivecs d"] d' by auto
  have iv: "map ivecs (self_ivecs d') = map ivecs (self_ivecs d)"
    unfolding k by (rule map_renamed_prefix) simp
  have ns: "map num_speakers (self_ivecs d') = map num_speakers (self_ivecs d)"
    unfolding k by (rule map_renamed_prefix) simp
  have un: "self_ivecs d' = self_ivecs d"
    if "\<forall>s\<in>set (self_ivecs d). size_ivecset s = 0 \<or> \<not> sublist ''beamformed'' (name s)"
  proof -
    have "map renamed (take k (self_ivecs d)) = take k (self_ivecs d)"
    proof (rule map_idI)
      fix x assume "x \<in> set (take k (self_ivecs d))"
      then have "x \<in> set (self_ivecs d)" by (rule in_set_takeD)
      with that show "renamed x = x" by (intro renamed_unchanged) blast
    qed
    then show ?thesis using k by simp
  qed
  have co: "self_ivecs d' = map renamed (self_ivecs d)" if "r = Inr fs" for fs
    using dump_loop_sets_complete [of scores out_dir "self_ivecs d" fs] that r d' by simp
  show ?thesis using d' k iv ns un co by auto
qed


theorem dump_rttm_changes_only_names_witness:
  "snd (snd (dump_rttm (ex_pipeline [ex_set ''beamformed/rec2'' (Some 2)])
               [''beamformed/rec2'' \<mapsto> ex_matrix] ''out''))
     = Inr [\<lparr>file_path = ''out/beamformed/rec2.rttm'',
            file_lines = [\<lparr>rec_id = ''rec2'', start_s = 0, duration_s = 3/2, spkr_idx = 0\<rparr>,
                          \<lparr>rec_id = ''rec2'', start_s = 3/2, duration_s = 3/4, spkr_idx = 0\<rparr>,
                          \<lparr>rec_id = ''rec2'', start_s = 9/4, duration_s = 7/4, spkr_idx = 1\<rparr>,
                          \<lparr>rec_id = ''rec2'', start_s = 4, duration_s = 1/2, spkr_idx = 1\<rparr>]\<rparr>]
   \<and> self_ivecs (fst (dump_rttm (ex_pipeline [ex_set ''beamformed/rec2'' (Some 2)])
                          [''beamformed/rec2'' \<mapsto> ex_matrix] ''out''))
       = map renamed (self_ivecs (ex_pipeline [ex_set ''beamformed/rec2'' (Some 2)]))
   \<and> list_all (\<lambda>s. size_ivecset s = 0 \<or> \<not> sublist ''beamformed'' (name s))
         (self_ivecs (ex_pipeline [ex_set ''rec2'' None]))
   \<and> self_ivecs (fst (dump_rttm (ex_pipeline [ex_set ''rec2'' None]) [''rec2'' \<mapsto> ex_matrix] ''out''))
       = self_ivecs (ex_pipeline [ex_set ''rec2'' None])"
proof -
  let ?d1 = "ex_pipeline [ex_set ''beamformed/rec2'' (Some 2)]"
  let ?sc1 = "[''beamformed/rec2'' \<mapsto> ex_matrix]"
  let ?d2 = "ex_pipeline [ex_set ''rec2'' None]"
  let ?sc2 = "[''rec2'' \<mapsto> ex_matrix]"
  have a: "dump_rttm ?d1 ?sc1 ''out''
             = (fst (dump_rttm ?d1 ?sc1 ''out''), fst (snd (dump_rttm ?d1 ?sc1 ''out'')),
                snd (snd (dump_rttm ?d1 ?sc1 ''out'')))"
    by simp
  have b: "dump_rttm ?d2 ?sc2 ''out''
             = (fst (dump_rttm ?d2 ?sc2 ''out''), fst (snd (dump_rttm ?d2 ?sc2 ''out'')),
                snd (snd (dump_rttm ?d2 ?sc2 ''out'')))"
    by simp
  have r1: "snd (snd (dump_rttm ?d1 ?sc1 ''out''))
     = Inr [\<lparr>file_path = ''out/beamformed/rec2.rttm'',
            file_lines = [\<lparr>rec_id = ''rec2'', start_s = 0, duration_s = 3/2, spkr_idx = 0\<rparr>,
                          \<lparr>rec_id = ''rec2'', start_s = 3/2, duration_s = 3/4, spkr_idx = 0\<rparr>,
                          \<lparr>rec_id = ''rec2'', start_s = 9/4, duration_s = 7/4, spkr_idx = 1\<rparr>,
                          \<lparr>rec_id = ''rec2'', start_s = 4, duration_s = 1/2, spkr_idx = 1\<rparr>]\<rparr>]"
    by (simp only: ex_dump_beam snd_conv)
  have c: "list_all (\<lambda>s. size_ivecset s = 0 \<or> \<not> sublist ''beamformed'' (name s)) (self_ivecs ?d2)"
    by (simp add: ex_pipeline_def no_beamformed_in_rec2)
  from dump_rttm_changes_only_names [OF a] r1
  have d: "self_ivecs (fst (dump_rttm ?d1 ?sc1 ''out'')) = map renamed (self_ivecs ?d1)"
    by blast
  from c have "\<forall>s\<in>set (self_ivecs ?d2). size_ivecset s = 0 \<or> \<not> sublist ''beamformed'' (name s)"
    by (simp only: list_all_iff)
  with dump_rttm_changes_only_names [OF b]
  have e: "self_ivecs (fst (dump_rttm ?d2 ?sc2 ''out'')) = self_ivecs ?d2"
    by blast
  from r1 c d e show ?thesis by (simp only: simp_thms)
qed

text \<open>
  C8 fails for a set named \<^verbatim>\<open>beamformed/rec2\<close>: after \<^verbatim>\<open>dump_rttm\<close> its name is
  \<^verbatim>\<open>rec2\<close>.
\<close>

theorem dump_rttm_renames_beamformed:
  "name (hd (self_ivecs (ex_pipeline [ex_set ''beamformed/rec2'' (Some 2)]))) = ''beamformed/rec2''
   \<and> name (hd (self_ivecs (fst (dump_rttm (ex_pipeline [ex_set ''beamformed/rec2'' (Some 2)])
                                   [''beamformed/rec2'' \<mapsto> ex_matrix] ''out'')))) = ''rec2''"
  by (simp add: ex_dump_beam) (simp add: ex_pipeline_def)


section \<open>Keys of the score dictionary\<close>

lemma score_set_dom:
  assumes "score_set cl d k sd s = (lg, Inr sd')"
  shows "dom sd' = dom sd \<union> (if size_ivecset s > 0 then {normpath (name s)} else {})"
  using assms
  by (auto simp: score_set_def Let_def split: if_splits sum.splits)

lemma score_loop_dom:
  assumes "score_loop cl d k sd sets = (lg, Inr scores)"
  shows "dom scores = dom sd \<union> (\<lambda>s. normpath (name s)) ` {s \<in> set sets. size_ivecset s > 0}"
  using assms
proof (induction sets arbitrary: sd lg)
  case Nil
  then show ?case by simp
next
  case (Cons s sets)
  from Cons.prems obtain lg1 sd1 lg2 where one: "score_set cl d k sd s = (lg1, Inr sd1)"
    and rest: "score_loop cl d k sd1 sets = (lg2, Inr scores)"
    by (auto split: prod.splits sum.splits)
  from Cons.IH [OF rest] score_set_dom [OF one] show ?case by auto
qed

lemma dump_loop_fails:
  assumes "s \<in> set sets" and "snd (snd (dump_set scores out_dir s)) = Inl e"
  shows "\<exists>e'. snd (snd (dump_loop scores out_dir sets)) = Inl e'"
  using assms
proof (induction sets)
  case Nil
  then show ?case by simp
next
  case (Cons t sets)
  show ?case
  proof (cases "snd (snd (dump_set scores out_dir t))")
    case (Inl e1)
    then show ?thesis by (cases "dump_set scores out_dir t") auto
  next
    case (Inr fs)
    with Cons.prems have "s \<in> set sets" by auto
    from Cons.IH [OF this Cons.prems(2)] obtain e' where
      "snd (snd (dump_loop scores out_dir sets)) = Inl e'" by blast
    then show ?thesis using Inr
      by (cases "dump_set scores out_dir t"; cases "dump_loop scores out_dir sets") auto
  qed
qed

lemma dump_set_lookup:
  assumes "size_ivecset s > 0"
  shows "snd (snd (dump_set scores out_dir s)) = Inl KeyError \<longleftrightarrow> scores (name s) = None"
proof (cases "scores (name s)")
  case None
  from assms have "ivecs (renamed s) \<noteq> []" by (simp add: size_ivecset_def)
  then show ?thesis using None assms
    by (auto simp: dump_set_def Let_def renamed_def dump_segments_key_error)
next
  case (Some M)
  then show ?thesis using assms dump_segments_no_key_error [of M]
    by (auto simp: dump_set_def Let_def split: sum.splits)
qed

text \<open>
  C10, as the code has it. \<^verbatim>\<open>score_ivec\<close> stores the scores of a set under the
  normalized form of its name, and \<^verbatim>\<open>dump_rttm\<close> looks them up under the name the set
  has before the rewrite of \<^verbatim>\<open>beamformed/\<close>. So, for the scores that \<^verbatim>\<open>score_ivec\<close>
  returned and a set of the pipeline with at least one embedding: when the name equals
  its normalized form, the lookup finds a matrix and no \<open>KeyError\<close> is raised for
  the set; when the name differs from its normalized form, no matrix is stored under
  it, the pass over the set raises \<open>KeyError\<close> before any line is written, and
  \<^verbatim>\<open>dump_rttm\<close> ends with an exception.
\<close>

theorem scores_looked_up_by_unrewritten_name:
  assumes "score_ivec cl d max_num_speakers = (lg, Inr scores)"
      and "s \<in> set (self_ivecs d)" and "size_ivecset s > 0"
  shows "(name s = normpath (name s) \<longrightarrow>
            scores (name s) \<noteq> None \<and> snd (snd (dump_set scores out_dir s)) \<noteq> Inl KeyError)
       \<and> (name s \<noteq> normpath (name s) \<longrightarrow>
            scores (name s) = None \<and> snd (snd (dump_set scores out_dir s)) = Inl KeyError
            \<and> (\<exists>e. snd (snd (dump_rttm d scores out_dir)) = Inl e))"
proof -
  from assms(1) have dom: "dom scores = (\<lambda>s. normpath (name s)) ` {s \<in> set (self_ivecs d). size_ivecset s > 0}"
    using score_loop_dom [of cl d max_num_speakers Map.empty "self_ivecs d" lg scores]
    by (simp add: score_ivec_def)
  have in_dom: "normpath (name s) \<in> dom scores"
    using assms(2,3) dom by blast
  have fixed: "normpath k = k" if "k \<in> dom scores" for k
    using that dom normpath_idem by auto
  show ?thesis
  proof (intro conjI impI)
    assume eq: "name s = normpath (name s)"
    then show "scores (name s) \<noteq> None" using in_dom by auto
    then show "snd (snd (dump_set scores out_dir s)) \<noteq> Inl KeyError"
      using dump_set_lookup [OF assms(3)] by simp
  next
    assume ne: "name s \<noteq> normpath (name s)"
    then have "name s \<notin> dom scores" using fixed by metis
    then show none: "scores (name s) = None" by auto
    then show key: "snd (snd (dump_set scores out_dir s)) = Inl KeyError"
      using dump_set_lookup [OF assms(3)] by simp
    from dump_loop_fails [OF assms(2) key]
    show "\<exists>e. snd (snd (dump_rttm d scores out_dir)) = Inl e"
      by (auto simp: dump_rttm_def split: prod.splits)
  qed
qed

lemma sqrt_144_169: "sqrt (144/169) = 12/13"
  by (rule real_sqrt_unique) (simp_all add: power2_eq_square)

lemma ex_cosine_scores:
  "compute_scores None None (get_all (ex_set nm k)) [[12/13, 0, 0], [0, 0, 12/13]] = Inr ex_matrix"
  by (simp add: compute_scores_def ex_set_get_all cosine_similarity_def transpose_m_def
                l2_normalize_def dot_def sqrt_144_169 upt_conv_Cons ex_matrix_def)

lemma ex_score_declared:
  assumes "normpath nm = key"
  shows "score_ivec ex_clustering (ex_pipeline [ex_set nm (Some 2)]) 6
           = ([Info (''Scoring '' @ key @ '' ...'')], Inr [key \<mapsto> ex_matrix])"
  using assms
  by (simp add: score_ivec_def ex_pipeline_def score_set_def estimate_centroids_def
                ex_clustering_def ex_cosine_scores)

lemma normpath_beamformed_rec2: "normpath ''beamformed/rec2'' = ''beamformed/rec2''"
  by (simp add: normpath_def initial_slashes_def normpath_step_def)

lemma normpath_double_slash: "normpath ''beamformed//rec2'' = ''beamformed/rec2''"
  by (simp add: normpath_def initial_slashes_def normpath_step_def)

lemma normpath_root_rec2: "normpath ''/rec2'' = ''/rec2''"
  by (simp add: normpath_def initial_slashes_def normpath_step_def)

theorem scores_looked_up_by_unrewritten_name_witness:
  "score_ivec ex_clustering (ex_pipeline [ex_set ''beamformed/rec2'' (Some 2)]) 6
     = ([Info ''Scoring beamformed/rec2 ...''], Inr [''beamformed/rec2'' \<mapsto> ex_matrix])
   \<and> name (ex_set ''beamformed/rec2'' (Some 2)) = normpath (name (ex_set ''beamformed/rec2'' (Some 2)))
   \<and> snd (snd (dump_set [''beamformed/rec2'' \<mapsto> ex_matrix] ''out'' (ex_set ''beamformed/rec2'' (Some 2))))
        \<noteq> Inl KeyError
   \<and> score_ivec ex_clustering (ex_pipeline [ex_set ''beamformed//rec2'' (Some 2)]) 6
     = ([Info ''Scoring beamformed/rec2 ...''], Inr [''beamformed/rec2'' \<mapsto> ex_matrix])
   \<and> name (ex_set ''beamformed//rec2'' (Some 2)) \<noteq> normpath (name (ex_set ''beamformed//rec2'' (Some 2)))
   \<and> snd (snd (dump_set [''beamformed/rec2'' \<mapsto> ex_matrix] ''out'' (ex_set ''beamformed//rec2'' (Some 2))))
        = Inl KeyError"
proof -
  have a: "score_ivec ex_clustering (ex_pipeline [ex_set ''beamformed/rec2'' (Some 2)]) 6
     = ([Info ''Scoring beamformed/rec2 ...''], Inr [''beamformed/rec2'' \<mapsto> ex_matrix])"
    using ex_score_declared [OF normpath_beamformed_rec2] by simp
  have b: "score_ivec ex_clustering (ex_pipeline [ex_set ''beamformed//rec2'' (Some 2)]) 6
     = ([Info ''Scoring beamformed/rec2 ...''], Inr [''beamformed/rec2'' \<mapsto> ex_matrix])"
    using ex_score_declared [OF normpath_double_slash] by simp
  have m1: "ex_set ''beamformed/rec2'' (Some 2) \<in> set (self_ivecs (ex_pipeline [ex_set ''beamformed/rec2'' (Some 2)]))"
    by (simp add: ex_pipeline_def)
  have m2: "ex_set ''beamformed//rec2'' (Some 2) \<in> set (self_ivecs (ex_pipeline [ex_set ''beamformed//rec2'' (Some 2)]))"
    by (simp add: ex_pipeline_def)
  have sz: "size_ivecset (ex_set nm k) > 0" for nm k by simp
  have n1: "name (ex_set ''beamformed/rec2'' (Some 2)) = normpath (name (ex_set ''beamformed/rec2'' (Some 2)))"
    by (simp add: normpath_beamformed_rec2)
  have n2: "name (ex_set ''beamformed//rec2'' (Some 2)) \<noteq> normpath (name (ex_set ''beamformed//rec2'' (Some 2)))"
    by (simp add: normpath_double_slash)
  from scores_looked_up_by_unrewritten_name [OF a m1 sz, of "''out''"] n1
  have c: "snd (snd (dump_set [''beamformed/rec2'' \<mapsto> ex_matrix] ''out'' (ex_set ''beamformed/rec2'' (Some 2))))
        \<noteq> Inl KeyError" by blast
  from scores_looked_up_by_unrewritten_name [OF b m2 sz, of "''out''"] n2
  have d: "snd (snd (dump_set [''beamformed/rec2'' \<mapsto> ex_matrix] ''out'' (ex_set ''beamformed//rec2'' (Some 2))))
        = Inl KeyError" by blast
  from a b n1 n2 c d show ?thesis by (simp only: simp_thms)
qed

text \<open>
  C10 fails when the name is compared after the rewrite. The set \<^verbatim>\<open>beamformed/rec2\<close>
  is rewritten to \<^verbatim>\<open>rec2\<close>, which is not the key \<^verbatim>\<open>beamformed/rec2\<close> of its scores,
  and yet its timeline is written. The set \<^verbatim>\<open>beamformed//rec2\<close> is rewritten to
  \<^verbatim>\<open>/rec2\<close>, which equals its own normalized form, and yet the lookup under
  \<^verbatim>\<open>beamformed//rec2\<close> raises \<open>KeyError\<close>.
\<close>

theorem rewritten_name_is_not_the_key:
  "snd (score_ivec ex_clustering (ex_pipeline [ex_set ''beamformed/rec2'' (Some 2)]) 6)
     = Inr [''beamformed/rec2'' \<mapsto> ex_matrix]
   \<and> name (renamed (ex_set ''beamformed/rec2'' (Some 2))) = ''rec2''
   \<and> normpath ''rec2'' = ''rec2''
   \<and> normpath ''beamformed/rec2'' = ''beamformed/rec2''
   \<and> snd (snd (dump_rttm (ex_pipeline [ex_set ''beamformed/rec2'' (Some 2)])
                  [''beamformed/rec2'' \<mapsto> ex_matrix] ''out''))
        = Inr [\<lparr>file_path = ''out/beamformed/rec2.rttm'',
            file_lines = [\<lparr>rec_id = ''rec2'', start_s = 0, duration_s = 3/2, spkr_idx = 0\<rparr>,
                          \<lparr>rec_id = ''rec2'', start_s = 3/2, duration_s = 3/4, spkr_idx = 0\<rparr>,
                          \<lparr>rec_id = ''rec2'', start_s = 9/4, duration_s = 7/4, spkr_idx = 1\<rparr>,
                          \<lparr>rec_id = ''rec2'', start_s = 4, duration_s = 1/2, spkr_idx = 1\<rparr>]\<rparr>]
   \<and> snd (score_ivec ex_clustering (ex_pipeline [ex_set ''beamformed//rec2'' (Some 2)]) 6)
     = Inr [''beamformed/rec2'' \<mapsto> ex_matrix]
   \<and> name (renamed (ex_set ''beamformed//rec2'' (Some 2))) = ''/rec2''
   \<and> normpath ''/rec2'' = ''/rec2''
   \<and> snd (snd (dump_rttm (ex_pipeline [ex_set ''beamformed//rec2'' (Some 2)])
                  [''beamformed/rec2'' \<mapsto> ex_matrix] ''out'')) = Inl KeyError"
proof -
  have "normpath ''rec2'' = ''rec2''"
    by (simp add: normpath_def initial_slashes_def normpath_step_def)
  moreover have "name (renamed (ex_set ''beamformed/rec2'' (Some 2))) = ''rec2''"
    by (simp add: renamed_def beamformed_in_name)
  moreover have "name (renamed (ex_set ''beamformed//rec2'' (Some 2))) = ''/rec2''"
    by (simp add: renamed_def beamformed_in_double_slash_name)
  ultimately show ?thesis
    by (simp add: ex_score_declared [OF normpath_beamformed_rec2] ex_score_declared [OF normpath_double_slash] normpath_beamformed_rec2 normpath_root_rec2
                  ex_dump_beam ex_dump_beam2)
qed


section \<open>Properties of the speaker count selection\<close>

text \<open>
  No call of \<^verbatim>\<open>get_num_speakers\<close> returns a count, whatever is configured: with an
  empty range of candidates it ends with the \<open>AttributeError\<close> for \<^verbatim>\<open>model\<close>, and
  otherwise, once the two clustering calls for the first candidate have returned, with
  the \<open>AttributeError\<close> for \<^verbatim>\<open>s_norm\<close>.
\<close>

lemma get_num_speakers_never_returns:
  "(\<exists>e. get_num_speakers cl d X min_speakers max_speakers = Inl e)
   \<and> (max_speakers < min_speakers \<longrightarrow>
        get_num_speakers cl d X min_speakers max_speakers = Inl (AttributeError ''model''))
   \<and> (\<forall>c c'. min_speakers \<le> max_speakers \<and> sklearn_kmeans cl min_speakers X = Inr c
               \<and> pldakmeans cl c min_speakers (self_plda d) X = Inr c'
        \<longrightarrow> get_num_speakers cl d X min_speakers max_speakers = Inl (AttributeError ''s_norm''))"
  by (auto simp: get_num_speakers_def split: sum.splits)

text \<open>
  C9. On the example recording \<^verbatim>\<open>get_num_speakers\<close> does not signal that a model is
  missing. Line 175 reads \<^verbatim>\<open>self.s_norm\<close>, which the class never defines (line 116
  calls \<^verbatim>\<open>self.norm.s_norm\<close>), so the call ends with the \<open>AttributeError\<close> for
  \<^verbatim>\<open>s_norm\<close>: the same with neither normalizer nor PLDA model configured and with
  both configured. It never returns the count and centroids that its docstring promises.
\<close>

theorem get_num_speakers_attribute_error:
  "get_num_speakers ex_clustering (ex_pipeline [ex_set ''rec2'' None])
     (get_all (ex_set ''rec2'' None)) 2 6 = Inl (AttributeError ''s_norm'')
   \<and> get_num_speakers ex_clustering
       ((ex_pipeline [ex_set ''rec2'' None])
          \<lparr>self_norm := Some \<lparr>s_norm = (\<lambda>X cs. Inr ex_matrix)\<rparr>,
           self_plda := Some \<lparr>score = (\<lambda>X cs. Inr ex_matrix)\<rparr>\<rparr>)
       (get_all (ex_set ''rec2'' None)) 2 6 = Inl (AttributeError ''s_norm'')"
  by (simp add: get_num_speakers_def ex_clustering_def)

end
